theory Spec2Isabelle
  imports Complex_Main
begin

section \<open>Fusion ensembles (torchensemble/fusion.py)\<close>

text \<open>
  The module couples N base estimators by averaging their outputs. A two-dimensional
  tensor is its list of rows, and its entries are real numbers. The arithmetic of the
  forward pass is given in two readings: exactly, over the reals (\<open>div_scalar\<close>,
  \<open>add_tensor\<close>, \<open>softmax_row\<close> and the functions built on them, among them
  \<open>fit\<close> and \<open>predict\<close>), and with the rounding that float32 tensors apply to every
  arithmetic result (the functions with the suffix \<open>_rnd\<close> in the section on float32
  arithmetic, which are the exact ones when the rounding is the identity). Everything
  the module takes from its collaborators (the estimator factory, the estimators' own
  forward function, the optimizer, the output-width inference, the cross-entropy
  criterion) is a field of a \<open>backend\<close> record, so that every theorem holds for all of
  them.
\<close>

subsection \<open>Failures\<close>

text \<open>
  Every exception of the Python code is a value. \<open>NonFinite\<close> is not an exception:
  it stands for a float result that is \<open>inf\<close> or \<open>nan\<close> (a tensor divided by zero, the
  mean of no element), which no real number represents; the model stops there.
\<close>

datatype failure =
    ValidationError
  | UnsupportedConfigurationError
  | ShapeMismatchError
  | IndexError
  | AttributeError
  | ZeroDivisionError
  | NonFinite
  | CollaboratorError

subsection \<open>Tensors\<close>

type_synonym tensor = "real list list"

definition zeros :: "nat \<Rightarrow> nat \<Rightarrow> tensor" where
  "zeros b n = replicate b (replicate n 0)"

definition width :: "tensor \<Rightarrow> nat" where
  "width t = (case t of [] \<Rightarrow> 0 | r # _ \<Rightarrow> length r)"

definition rectangular :: "tensor \<Rightarrow> bool" where
  "rectangular t = list_all (\<lambda>r. length r = width t) t"

definition has_shape :: "nat \<Rightarrow> nat \<Rightarrow> tensor \<Rightarrow> bool" where
  "has_shape b n t = (length t = b \<and> list_all (\<lambda>r. length r = n) t)"

text \<open>
  \<open>t / k\<close> for a Python integer \<open>k\<close>, over the reals; the caller handles
  \<open>k = 0\<close>. On float32 tensors every quotient is rounded: \<open>div_scalar_rnd\<close>.
\<close>

definition div_scalar :: "tensor \<Rightarrow> int \<Rightarrow> tensor" where
  "div_scalar t k = map (map (\<lambda>v. v / of_int k)) t"

text \<open>
  Broadcasting of a two-dimensional tensor to the shape \<open>(b, n)\<close>, as an in-place
  addition into a tensor of that shape does it: a dimension of size one is repeated,
  any other difference is a shape mismatch. The list of rows of a tensor without rows
  does not record its width: \<open>width\<close> gives 0 for it and \<open>expand_to\<close> accepts it
  for every width.
\<close>

definition expand_row :: "nat \<Rightarrow> real list \<Rightarrow> real list" where
  "expand_row n r = (if length r = n then r else replicate n (hd r))"

definition expand_to :: "nat \<Rightarrow> nat \<Rightarrow> tensor \<Rightarrow> failure + tensor" where
  "expand_to b n t =
     (if rectangular t \<and> (length t = b \<or> length t = 1)
         \<and> (t = [] \<or> width t = n \<or> width t = 1)
      then Inr (let rs = map (expand_row n) t
                in if length t = b then rs else replicate b (hd rs))
      else Inl ShapeMismatchError)"

text \<open>
  Elementwise addition of two tensors of the same shape, over the reals. On float32
  tensors every sum is rounded: \<open>add_tensor_rnd\<close>.
\<close>

definition add_tensor :: "tensor \<Rightarrow> tensor \<Rightarrow> tensor" where
  "add_tensor p q = map2 (map2 (+)) p q"

text \<open>
  \<open>F.softmax(proba, dim=1)\<close>: the normalised exponential of every row, over the
  reals. The float32 computation, with its roundings, is \<open>softmax_row_rnd\<close>.
\<close>

definition softmax_row :: "real list \<Rightarrow> real list" where
  "softmax_row r = map (\<lambda>v. exp v / sum_list (map exp r)) r"

definition softmax :: "tensor \<Rightarrow> tensor" where
  "softmax t = map softmax_row t"

text \<open>
  \<open>output.max(1)[1]\<close>: per row, the index of the first maximal entry; a row without
  entries cannot be reduced.
\<close>

primrec first_max :: "real \<Rightarrow> nat \<Rightarrow> nat \<Rightarrow> real list \<Rightarrow> nat" where
  "first_max best k i [] = k"
| "first_max best k i (v # vs) =
     (if best < v then first_max v i (Suc i) vs else first_max best k (Suc i) vs)"

definition argmax_row :: "real list \<Rightarrow> failure + nat" where
  "argmax_row r = (case r of [] \<Rightarrow> Inl IndexError | v # vs \<Rightarrow> Inr (first_max v 0 1 vs))"

primrec argmax_rows :: "tensor \<Rightarrow> failure + nat list" where
  "argmax_rows [] = Inr []"
| "argmax_rows (r # rs) =
     (case argmax_row r of
        Inl e \<Rightarrow> Inl e
      | Inr k \<Rightarrow> (case argmax_rows rs of Inl e \<Rightarrow> Inl e | Inr ks \<Rightarrow> Inr (k # ks)))"

text \<open>
  \<open>pred.eq(target.view(-1)).sum()\<close>: the number of positions where prediction and
  target agree; a side of length one is broadcast against the other.
\<close>

definition eq_sum :: "nat list \<Rightarrow> int list \<Rightarrow> failure + nat" where
  "eq_sum pred target =
     (if length pred = length target
      then Inr (length (filter (\<lambda>(p, t). int p = t) (zip pred target)))
      else if length target = 1
      then Inr (length (filter (\<lambda>p. int p = hd target) pred))
      else if length pred = 1
      then Inr (length (filter (\<lambda>t. int (hd pred) = t) target))
      else Inl ShapeMismatchError)"

text \<open>
  \<open>nn.MSELoss()(output, target)\<close>: both sides are broadcast to their common shape and
  the squared differences are averaged over all elements. The mean of no element is
  \<open>nan\<close>.
\<close>

definition bdim :: "nat \<Rightarrow> nat \<Rightarrow> nat option" where
  "bdim a b = (if a = b then Some a else if a = 1 then Some b
               else if b = 1 then Some a else None)"

definition sq_diffs :: "tensor \<Rightarrow> tensor \<Rightarrow> real list" where
  "sq_diffs p q = concat (map2 (map2 (\<lambda>a b. (a - b)\<^sup>2)) p q)"

definition mse_loss :: "tensor \<Rightarrow> tensor \<Rightarrow> failure + real" where
  "mse_loss out target =
     (case (bdim (length out) (length target), bdim (width out) (width target)) of
        (Some b, Some n) \<Rightarrow>
          (case (expand_to b n out, expand_to b n target) of
             (Inr p, Inr q) \<Rightarrow>
               if b * n = 0 then Inl NonFinite
               else Inr (sum_list (sq_diffs p q) / real (b * n))
           | _ \<Rightarrow> Inl ShapeMismatchError)
      | _ \<Rightarrow> Inl ShapeMismatchError)"

subsection \<open>Ensemble state, loaders and collaborators\<close>

text \<open>
  The fields of \<open>BaseModule\<close> that the module reads and writes. \<open>n_outputs\<close> is
  \<open>None\<close> while the attribute has not been assigned. \<open>training\<close> is the train/eval
  flag of the module and of all its estimators. \<open>factory_calls\<close> is a ghost counter
  of the invocations of the estimator factory. The field \<open>estimators\<close> is the
  attribute \<open>estimators_\<close> of the source.
\<close>

record 'e ensemble =
  n_estimators :: int
  device :: string
  estimators :: "'e list"
  n_outputs :: "nat option"
  training :: bool
  factory_calls :: nat

text \<open>
  A data loader: the batches it yields in iteration order, each a pair of an input batch
  (one entry per example) and its target, and \<open>len(loader.dataset)\<close>.
  \<open>len(loader)\<close> is the number of batches. The loader yields the same batches every
  time it is iterated.
\<close>

record ('x, 't) loader =
  batches :: "('x list \<times> 't) list"
  dataset_len :: nat

text \<open>
  The collaborators, for estimators \<open>'e\<close>, examples \<open>'x\<close>, targets \<open>'t\<close> and
  optimizers \<open>'o\<close>:
  \<^item> \<open>make_estimator i\<close> is the outcome of the \<open>i\<close>-th invocation of
    \<open>self._make_estimator()\<close>: a new estimator, or the exception that the
    construction raises;
  \<^item> \<open>run e mode X\<close> is \<open>estimator(X)\<close> for the estimator \<open>e\<close> in train mode
    (\<open>mode = True\<close>) or evaluation mode, a two-dimensional tensor or an exception;
  \<^item> \<open>decide_n_outputs\<close> is \<open>self._decide_n_outputs(train_loader, is_classification)\<close>;
  \<^item> \<open>set_optimizer\<close> is \<open>utils.set_optimizer(self, optimizer, lr, weight_decay)\<close>,
    which reads the estimators held at that moment;
  \<^item> \<open>step_estimator\<close> and \<open>step_optimizer\<close> give the estimator at position \<open>i\<close>
    and the optimizer after \<open>zero_grad\<close>, \<open>backward\<close> and \<open>step\<close> on one batch;
  \<^item> \<open>cross_entropy\<close> is \<open>nn.CrossEntropyLoss()\<close>.
  For a classifier the target of a batch is the list of its class indices
  (\<open>target.view(-1)\<close>), for a regressor a tensor.
\<close>

record ('e, 'x, 't, 'o) backend =
  make_estimator :: "nat \<Rightarrow> failure + 'e"
  run :: "'e \<Rightarrow> bool \<Rightarrow> 'x list \<Rightarrow> failure + tensor"
  decide_n_outputs :: "('x, 't) loader \<Rightarrow> bool \<Rightarrow> failure + nat"
  set_optimizer :: "'e list \<Rightarrow> string \<Rightarrow> real \<Rightarrow> real \<Rightarrow> failure + 'o"
  step_estimator :: "'o \<Rightarrow> 'e list \<Rightarrow> 'x list \<times> 't \<Rightarrow> nat \<Rightarrow> 'e \<Rightarrow> 'e"
  step_optimizer :: "'o \<Rightarrow> 'e list \<Rightarrow> 'x list \<times> 't \<Rightarrow> 'o"
  cross_entropy :: "tensor \<Rightarrow> 't \<Rightarrow> failure + real"

subsection \<open>The averaged forward pass\<close>

text \<open>
  The loop \<open>for estimator in self.estimators_: proba += estimator(X) / self.n_estimators\<close>
  of \<open>FusionClassifier._forward\<close> and \<open>FusionRegressor.forward\<close>, over the
  remaining estimators, with the accumulator of shape \<open>(length X, n)\<close>, over the
  reals (\<open>accumulate_rnd\<close> is the same loop with float32 rounding). The
  estimator is invoked first, then its output is divided (by zero, every element
  becomes \<open>inf\<close> or \<open>nan\<close>), then added in place with broadcasting.
\<close>

fun accumulate ::
  "('e, 'x, 't, 'o) backend \<Rightarrow> 'e ensemble \<Rightarrow> nat \<Rightarrow> 'x list \<Rightarrow> 'e list \<Rightarrow> tensor
     \<Rightarrow> failure + tensor" where
  "accumulate B s n X [] proba = Inr proba"
| "accumulate B s n X (est # rest) proba =
     (case run B est (training s) X of
        Inl e \<Rightarrow> Inl e
      | Inr y \<Rightarrow>
          if n_estimators s = 0 \<and> concat y \<noteq> [] then Inl NonFinite
          else (case expand_to (length X) n (div_scalar y (n_estimators s)) of
                  Inl e \<Rightarrow> Inl e
                | Inr y' \<Rightarrow> accumulate B s n X rest (add_tensor proba y')))"

text \<open>
  \<open>FusionClassifier._forward\<close>: the average of the estimators' outputs, starting from
  \<open>torch.zeros(batch_size, self.n_outputs)\<close>.
\<close>

definition cls__forward ::
  "('e, 'x, 't, 'o) backend \<Rightarrow> 'e ensemble \<Rightarrow> 'x list \<Rightarrow> failure + tensor" where
  "cls__forward B s X =
     (case n_outputs s of
        None \<Rightarrow> Inl AttributeError
      | Some n \<Rightarrow> accumulate B s n X (estimators s) (zeros (length X) n))"

text \<open>\<open>FusionClassifier.forward\<close>: the softmax of \<open>_forward(X)\<close> along dimension 1.\<close>

definition cls_forward ::
  "('e, 'x, 't, 'o) backend \<Rightarrow> 'e ensemble \<Rightarrow> 'x list \<Rightarrow> failure + tensor" where
  "cls_forward B s X =
     (case cls__forward B s X of Inl e \<Rightarrow> Inl e | Inr proba \<Rightarrow> Inr (softmax proba))"

text \<open>\<open>FusionRegressor.forward\<close>: the same average, returned as it is.\<close>

definition reg_forward ::
  "('e, 'x, 't, 'o) backend \<Rightarrow> 'e ensemble \<Rightarrow> 'x list \<Rightarrow> failure + tensor" where
  "reg_forward B s X =
     (case n_outputs s of
        None \<Rightarrow> Inl AttributeError
      | Some n \<Rightarrow> accumulate B s n X (estimators s) (zeros (length X) n))"

subsection \<open>Collaborators of \<open>fit\<close>\<close>

text \<open>
  Modelled from the spec: \<open>BaseModule._validate_parameters\<close> is not among the
  sources. Section 4.2 step 1 and section 6 of the specification: learning rate > 0,
  weight decay \<ge> 0, epochs > 0, log interval > 0, raising on the first invalid value.
\<close>

definition validate_parameters :: "real \<Rightarrow> real \<Rightarrow> int \<Rightarrow> int \<Rightarrow> failure option" where
  "validate_parameters lr weight_decay epochs log_interval =
     (if \<not> 0 < lr then Some ValidationError
      else if \<not> 0 \<le> weight_decay then Some ValidationError
      else if \<not> 0 < epochs then Some ValidationError
      else if \<not> 0 < log_interval then Some ValidationError
      else None)"

text \<open>
  Modelled from the spec: the constructor of \<open>BaseModule\<close> is not among the sources.
  Section 3 of the specification: \<open>n_estimators\<close> and the device are set before
  \<open>fit\<close>, the collection of estimators is empty until \<open>fit\<close>, \<open>n_outputs\<close> is
  inferred by \<open>fit\<close>. A fresh module is in train mode.
\<close>

definition init_ensemble :: "int \<Rightarrow> string \<Rightarrow> 'e ensemble" where
  "init_ensemble n dev =
     \<lparr>n_estimators = n, device = dev, estimators = [], n_outputs = None,
      training = True, factory_calls = 0\<rparr>"

text \<open>
  \<open>for _ in range(self.n_estimators): self.estimators_.append(self._make_estimator())\<close>,
  with \<open>k\<close> iterations left. An exception of the factory ends the loop and the call
  of \<open>fit\<close>; the estimators appended before it stay in the collection.
\<close>

primrec instantiate ::
  "('e, 'x, 't, 'o) backend \<Rightarrow> nat \<Rightarrow> 'e ensemble \<Rightarrow> 'e ensemble \<times> failure option" where
  "instantiate B 0 s = (s, None)"
| "instantiate B (Suc k) s =
     (case make_estimator B (factory_calls s) of
        Inl e \<Rightarrow> (s\<lparr>factory_calls := Suc (factory_calls s)\<rparr>, Some e)
      | Inr est \<Rightarrow>
          instantiate B k
            (s\<lparr>estimators := estimators s @ [est],
               factory_calls := Suc (factory_calls s)\<rparr>))"

text \<open>
  \<open>optimizer.zero_grad(); loss.backward(); optimizer.step()\<close>: every estimator held by
  the ensemble has its parameters updated in place; the collection itself is not
  touched.
\<close>

definition apply_step ::
  "('e, 'x, 't, 'o) backend \<Rightarrow> 'o \<Rightarrow> 'x list \<times> 't \<Rightarrow> 'e ensemble \<Rightarrow> 'e ensemble" where
  "apply_step B opt batch s =
     s\<lparr>estimators :=
         map (\<lambda>(i, e). step_estimator B opt (estimators s) batch i e)
           (enumerate 0 (estimators s))\<rparr>"

text \<open>The status lines printed by \<open>fit\<close>, in order.\<close>

datatype log_line =
    ClsLine nat nat real nat nat
  | RegLine nat nat real

subsection \<open>FusionClassifier\<close>

text \<open>
  The inner loop of \<open>FusionClassifier.fit\<close> over the batches of one epoch, from batch
  index \<open>batch_idx\<close> on. The logged prediction is taken from the output computed
  before the optimizer step.
\<close>

fun cls_train_batches ::
  "('e, 'x, int list, 'o) backend \<Rightarrow> int \<Rightarrow> nat \<Rightarrow> nat \<Rightarrow> ('x list \<times> int list) list
     \<Rightarrow> 'e ensemble \<times> 'o \<times> log_line list
     \<Rightarrow> ('e ensemble \<times> 'o \<times> log_line list) \<times> failure option" where
  "cls_train_batches B log_interval epoch batch_idx [] st = (st, None)"
| "cls_train_batches B log_interval epoch batch_idx ((data, target) # rest) (s, opt, lg) =
     (case cls__forward B s data of
        Inl e \<Rightarrow> ((s, opt, lg), Some e)
      | Inr output \<Rightarrow>
          (case cross_entropy B output target of
             Inl e \<Rightarrow> ((s, opt, lg), Some e)
           | Inr loss \<Rightarrow>
               let s' = apply_step B opt (data, target) s;
                   opt' = step_optimizer B opt (estimators s) (data, target)
               in if int batch_idx mod log_interval = 0
                  then (case argmax_rows output of
                          Inl e \<Rightarrow> ((s', opt', lg), Some e)
                        | Inr pred \<Rightarrow>
                            (case eq_sum pred target of
                               Inl e \<Rightarrow> ((s', opt', lg), Some e)
                             | Inr correct \<Rightarrow>
                                 cls_train_batches B log_interval epoch (Suc batch_idx) rest
                                   (s', opt',
                                    lg @ [ClsLine epoch batch_idx loss correct (length data)])))
                  else cls_train_batches B log_interval epoch (Suc batch_idx) rest
                         (s', opt', lg)))"

text \<open>The outer loop \<open>for epoch in range(epochs)\<close>, with \<open>k\<close> epochs left.\<close>

fun cls_train_epochs ::
  "('e, 'x, int list, 'o) backend \<Rightarrow> int \<Rightarrow> ('x, int list) loader \<Rightarrow> nat \<Rightarrow> nat
     \<Rightarrow> 'e ensemble \<times> 'o \<times> log_line list
     \<Rightarrow> ('e ensemble \<times> 'o \<times> log_line list) \<times> failure option" where
  "cls_train_epochs B log_interval L epoch 0 st = (st, None)"
| "cls_train_epochs B log_interval L epoch (Suc k) st =
     (case cls_train_batches B log_interval epoch 0 (batches L) st of
        (st', Some e) \<Rightarrow> (st', Some e)
      | (st', None) \<Rightarrow> cls_train_epochs B log_interval L (Suc epoch) k st')"

text \<open>
  \<open>FusionClassifier.fit\<close>. The result is the ensemble as the call leaves it, the lines
  printed, and the exception that ended the call, if any.
\<close>

definition cls_fit ::
  "('e, 'x, int list, 'o) backend \<Rightarrow> 'e ensemble \<Rightarrow> ('x, int list) loader
     \<Rightarrow> real \<Rightarrow> real \<Rightarrow> int \<Rightarrow> string \<Rightarrow> int
     \<Rightarrow> 'e ensemble \<times> log_line list \<times> failure option" where
  "cls_fit B s train_loader lr weight_decay epochs optimizer log_interval =
     (case instantiate B (nat (n_estimators s)) s of
        (s1, Some e) \<Rightarrow> (s1, [], Some e)
      | (s1, None) \<Rightarrow>
          (case decide_n_outputs B train_loader True of
             Inl e \<Rightarrow> (s1, [], Some e)
           | Inr n \<Rightarrow>
               let s2 = s1\<lparr>n_outputs := Some n\<rparr>
               in case set_optimizer B (estimators s2) optimizer lr weight_decay of
                    Inl e \<Rightarrow> (s2, [], Some e)
                  | Inr opt \<Rightarrow>
                      let s3 = s2\<lparr>training := True\<rparr>
                      in case validate_parameters lr weight_decay epochs log_interval of
                           Some e \<Rightarrow> (s3, [], Some e)
                         | None \<Rightarrow>
                             (case cls_train_epochs B log_interval train_loader 0 (nat epochs)
                                     (s3, opt, []) of
                                ((s4, opt', lg), r) \<Rightarrow> (s4, lg, r))))"

text \<open>The loop of \<open>FusionClassifier.predict\<close>, with the matches counted so far.\<close>

fun cls_count_correct ::
  "('e, 'x, int list, 'o) backend \<Rightarrow> 'e ensemble \<Rightarrow> ('x list \<times> int list) list \<Rightarrow> nat
     \<Rightarrow> failure + nat" where
  "cls_count_correct B s [] correct = Inr correct"
| "cls_count_correct B s ((data, target) # rest) correct =
     (case cls_forward B s data of
        Inl e \<Rightarrow> Inl e
      | Inr output \<Rightarrow>
          (case argmax_rows output of
             Inl e \<Rightarrow> Inl e
           | Inr pred \<Rightarrow>
               (case eq_sum pred target of
                  Inl e \<Rightarrow> Inl e
                | Inr c \<Rightarrow> cls_count_correct B s rest (correct + c))))"

text \<open>
  \<open>FusionClassifier.predict\<close>: the ensemble as the call leaves it, and the accuracy or
  the exception. The last division is a Python float division, which raises on a zero
  divisor.
\<close>

definition cls_predict ::
  "('e, 'x, int list, 'o) backend \<Rightarrow> 'e ensemble \<Rightarrow> ('x, int list) loader
     \<Rightarrow> 'e ensemble \<times> (failure + real)" where
  "cls_predict B s test_loader =
     (let s' = s\<lparr>training := False\<rparr>
      in (s', case cls_count_correct B s' (batches test_loader) 0 of
                Inl e \<Rightarrow> Inl e
              | Inr correct \<Rightarrow>
                  if dataset_len test_loader = 0 then Inl ZeroDivisionError
                  else Inr (100 * real correct / real (dataset_len test_loader))))"

subsection \<open>FusionRegressor\<close>

text \<open>
  The iterations of \<open>FusionRegressor.fit\<close> over the batches of one epoch and over the
  epochs, and \<open>FusionRegressor.fit\<close> itself, as for the classifier; the criterion is
  \<open>nn.MSELoss()\<close> and a status line carries no count.
\<close>

fun reg_train_batches ::
  "('e, 'x, tensor, 'o) backend \<Rightarrow> int \<Rightarrow> nat \<Rightarrow> nat \<Rightarrow> ('x list \<times> tensor) list
     \<Rightarrow> 'e ensemble \<times> 'o \<times> log_line list
     \<Rightarrow> ('e ensemble \<times> 'o \<times> log_line list) \<times> failure option" where
  "reg_train_batches B log_interval epoch batch_idx [] st = (st, None)"
| "reg_train_batches B log_interval epoch batch_idx ((data, target) # rest) (s, opt, lg) =
     (case reg_forward B s data of
        Inl e \<Rightarrow> ((s, opt, lg), Some e)
      | Inr output \<Rightarrow>
          (case mse_loss output target of
             Inl e \<Rightarrow> ((s, opt, lg), Some e)
           | Inr loss \<Rightarrow>
               let s' = apply_step B opt (data, target) s;
                   opt' = step_optimizer B opt (estimators s) (data, target)
               in reg_train_batches B log_interval epoch (Suc batch_idx) rest
                    (s', opt',
                     if int batch_idx mod log_interval = 0
                     then lg @ [RegLine epoch batch_idx loss] else lg)))"

fun reg_train_epochs ::
  "('e, 'x, tensor, 'o) backend \<Rightarrow> int \<Rightarrow> ('x, tensor) loader \<Rightarrow> nat \<Rightarrow> nat
     \<Rightarrow> 'e ensemble \<times> 'o \<times> log_line list
     \<Rightarrow> ('e ensemble \<times> 'o \<times> log_line list) \<times> failure option" where
  "reg_train_epochs B log_interval L epoch 0 st = (st, None)"
| "reg_train_epochs B log_interval L epoch (Suc k) st =
     (case reg_train_batches B log_interval epoch 0 (batches L) st of
        (st', Some e) \<Rightarrow> (st', Some e)
      | (st', None) \<Rightarrow> reg_train_epochs B log_interval L (Suc epoch) k st')"

definition reg_fit ::
  "('e, 'x, tensor, 'o) backend \<Rightarrow> 'e ensemble \<Rightarrow> ('x, tensor) loader
     \<Rightarrow> real \<Rightarrow> real \<Rightarrow> int \<Rightarrow> string \<Rightarrow> int
     \<Rightarrow> 'e ensemble \<times> log_line list \<times> failure option" where
  "reg_fit B s train_loader lr weight_decay epochs optimizer log_interval =
     (case instantiate B (nat (n_estimators s)) s of
        (s1, Some e) \<Rightarrow> (s1, [], Some e)
      | (s1, None) \<Rightarrow>
          (case decide_n_outputs B train_loader False of
             Inl e \<Rightarrow> (s1, [], Some e)
           | Inr n \<Rightarrow>
               let s2 = s1\<lparr>n_outputs := Some n\<rparr>
               in case set_optimizer B (estimators s2) optimizer lr weight_decay of
                    Inl e \<Rightarrow> (s2, [], Some e)
                  | Inr opt \<Rightarrow>
                      let s3 = s2\<lparr>training := True\<rparr>
                      in case validate_parameters lr weight_decay epochs log_interval of
                           Some e \<Rightarrow> (s3, [], Some e)
                         | None \<Rightarrow>
                             (case reg_train_epochs B log_interval train_loader 0 (nat epochs)
                                     (s3, opt, []) of
                                ((s4, opt', lg), r) \<Rightarrow> (s4, lg, r))))"

text \<open>The loop of \<open>FusionRegressor.predict\<close>, with the per-batch losses summed so far.\<close>

fun reg_sum_mse ::
  "('e, 'x, tensor, 'o) backend \<Rightarrow> 'e ensemble \<Rightarrow> ('x list \<times> tensor) list \<Rightarrow> real
     \<Rightarrow> failure + real" where
  "reg_sum_mse B s [] mse = Inr mse"
| "reg_sum_mse B s ((data, target) # rest) mse =
     (case reg_forward B s data of
        Inl e \<Rightarrow> Inl e
      | Inr output \<Rightarrow>
          (case mse_loss output target of
             Inl e \<Rightarrow> Inl e
           | Inr l \<Rightarrow> reg_sum_mse B s rest (mse + l)))"

text \<open>
  \<open>FusionRegressor.predict\<close>. Without any batch \<open>mse\<close> is still the Python float
  \<open>0.\<close>, and its division by \<open>len(test_loader) = 0\<close> raises.
\<close>

definition reg_predict ::
  "('e, 'x, tensor, 'o) backend \<Rightarrow> 'e ensemble \<Rightarrow> ('x, tensor) loader
     \<Rightarrow> 'e ensemble \<times> (failure + real)" where
  "reg_predict B s test_loader =
     (let s' = s\<lparr>training := False\<rparr>
      in (s', case reg_sum_mse B s' (batches test_loader) 0 of
                Inl e \<Rightarrow> Inl e
              | Inr mse \<Rightarrow>
                  if length (batches test_loader) = 0 then Inl ZeroDivisionError
                  else Inr (mse / real (length (batches test_loader)))))"

subsection \<open>Notions used to state the properties\<close>

text \<open>
  What an optimizer step, and so the whole training loop, may do to the ensemble: replace
  the estimators by updated ones, one for one, and nothing else.
\<close>

definition params_updated :: "'e ensemble \<Rightarrow> 'e ensemble \<Rightarrow> bool" where
  "params_updated s s' =
     (n_estimators s' = n_estimators s \<and> device s' = device s \<and>
      n_outputs s' = n_outputs s \<and> training s' = training s \<and>
      factory_calls s' = factory_calls s \<and>
      length (estimators s') = length (estimators s))"

text \<open>
  What every call of \<open>fit\<close> leaves as it is, whatever its outcome: \<open>n_estimators\<close> and
  the device.
\<close>

definition fit_effect :: "'e ensemble \<Rightarrow> 'e ensemble \<Rightarrow> bool" where
  "fit_effect s s' = (n_estimators s' = n_estimators s \<and> device s' = device s)"

text \<open>
  The variable \<open>pred\<close> of \<open>FusionClassifier.predict\<close> for one input batch: the
  arg-max class of every row of \<open>forward(data)\<close>.
\<close>

definition cls_pred ::
  "('e, 'x, int list, 'o) backend \<Rightarrow> 'e ensemble \<Rightarrow> 'x list \<Rightarrow> failure + nat list" where
  "cls_pred B s data =
     (case cls_forward B s data of Inl e \<Rightarrow> Inl e | Inr output \<Rightarrow> argmax_rows output)"

text \<open>
  The number of examples of a batch whose predicted class equals the target.
\<close>

definition matches :: "nat list \<Rightarrow> int list \<Rightarrow> nat" where
  "matches pred target = length (filter (\<lambda>(p, t). int p = t) (zip pred target))"

text \<open>
  The matches of one batch of a loader, and whether all its examples match.
\<close>

definition batch_correct ::
  "('e, 'x, int list, 'o) backend \<Rightarrow> 'e ensemble \<Rightarrow> 'x list \<times> int list \<Rightarrow> nat" where
  "batch_correct B s b =
     (case cls_pred B s (fst b) of Inl e \<Rightarrow> 0 | Inr pred \<Rightarrow> matches pred (snd b))"

definition all_match ::
  "('e, 'x, int list, 'o) backend \<Rightarrow> 'e ensemble \<Rightarrow> 'x list \<times> int list \<Rightarrow> bool" where
  "all_match B s b =
     (case cls_pred B s (fst b) of Inl e \<Rightarrow> False | Inr pred \<Rightarrow> map int pred = snd b)"

text \<open>
  The number of examples that a loader yields, all batches together.
\<close>

definition examples :: "('x list \<times> 't) list \<Rightarrow> nat" where
  "examples bs = sum_list (map (\<lambda>b. length (fst b)) bs)"



text \<open>
  Concrete collaborators for the examples: an estimator is the row it returns for
  every example of a batch, the factory builds the estimator \<open>[1, 0]\<close>, the width
  inferred from a loader is 2, and the optimizer leaves the estimators as they are.
\<close>

definition const_backend :: "(real list, unit, 't, unit) backend" where
  "const_backend =
     \<lparr>make_estimator = (\<lambda>i. Inr [1, 0]),
      run = (\<lambda>v mode X. Inr (replicate (length X) v)),
      decide_n_outputs = (\<lambda>L is_classification. Inr 2),
      set_optimizer = (\<lambda>ests kind lr weight_decay. Inr ()),
      step_estimator = (\<lambda>opt ests batch i e. e),
      step_optimizer = (\<lambda>opt ests batch. opt),
      cross_entropy = (\<lambda>output target. Inr 0)\<rparr>"

abbreviation cls_backend :: "(real list, unit, int list, unit) backend" where
  "cls_backend \<equiv> const_backend"

abbreviation reg_backend :: "(real list, unit, tensor, unit) backend" where
  "reg_backend \<equiv> const_backend"

text \<open>
  Two fitted ensembles in evaluation mode: three classifiers that all return
  \<open>[1, 0]\<close>, and two regressors that return \<open>[2]\<close> and \<open>[4]\<close>.
\<close>

definition three_classifiers :: "real list ensemble" where
  "three_classifiers =
     \<lparr>n_estimators = 3, device = ''cpu'', estimators = [[1, 0], [1, 0], [1, 0]],
      n_outputs = Some 2, training = False, factory_calls = 3\<rparr>"

definition two_regressors :: "real list ensemble" where
  "two_regressors =
     \<lparr>n_estimators = 2, device = ''cpu'', estimators = [[2], [4]],
      n_outputs = Some 1, training = False, factory_calls = 2\<rparr>"

text \<open>
  An ensemble of two estimators before its first \<open>fit\<close>, and the same in evaluation
  mode.
\<close>

definition fresh_pair :: "real list ensemble" where
  "fresh_pair = init_ensemble 2 ''cpu''"

definition eval_pair :: "real list ensemble" where
  "eval_pair = fresh_pair\<lparr>training := False\<rparr>"

text \<open>
  Loaders. \<open>drop_last_loader\<close> is a loader with batch size 2 and \<open>drop_last\<close> over a
  dataset of three examples: it yields one batch, and the third example never. The
  others yield every example of their dataset once; \<open>uneven_loader\<close> has batches of
  one and of three examples.
\<close>

definition drop_last_loader :: "(unit, int list) loader" where
  "drop_last_loader = \<lparr>batches = [([(), ()], [0, 0])], dataset_len = 3\<rparr>"

definition half_right_loader :: "(unit, int list) loader" where
  "half_right_loader = \<lparr>batches = [([(), ()], [0, 1])], dataset_len = 2\<rparr>"

definition uneven_loader :: "(unit, tensor) loader" where
  "uneven_loader =
     \<lparr>batches = [([()], [[5]]), ([(), (), ()], [[3], [3], [3]])], dataset_len = 4\<rparr>"

definition all_right_loader :: "(unit, int list) loader" where
  "all_right_loader = \<lparr>batches = [([(), ()], [0, 0])], dataset_len = 2\<rparr>"


definition empty_loader :: "(unit, 't) loader" where
  "empty_loader = \<lparr>batches = [], dataset_len = 0\<rparr>"

subsection \<open>Float32 arithmetic\<close>

text \<open>
  The tensors of the module are float32 tensors: the library rounds the result of every
  arithmetic operation to the nearest binary32 number, ties to even. \<open>rne\<close> rounds a
  real to the nearest integer, ties to even; \<open>fl32 x\<close> rounds \<open>x\<close> to the nearest
  multiple of \<open>2 ^ (e - 23)\<close>, where \<open>2 ^ e \<le> |x| < 2 ^ (e + 1)\<close> and \<open>e\<close> is
  at least -126 (below that the numbers are subnormal and the spacing stays
  \<open>2 ^ (-149)\<close>). A result beyond the largest finite binary32 number becomes
  \<open>inf\<close>; \<open>fl32\<close> gives the rounded real there.
\<close>

definition rne :: "real \<Rightarrow> int" where
  "rne z =
     (let f = \<lfloor>z\<rfloor>; d = z - of_int f
      in if d < 1 / 2 then f else if 1 / 2 < d then f + 1
         else if even f then f else f + 1)"

definition fl32 :: "real \<Rightarrow> real" where
  "fl32 x =
     (if x = 0 then 0
      else let e = max \<lfloor>log 2 \<bar>x\<bar>\<rfloor> (- 126); u = 2 powr (of_int e - 23)
           in sgn x * (of_int (rne (\<bar>x\<bar> / u)) * u))"

text \<open>
  The operations of the forward pass once more, with the rounding of every arithmetic
  result as a parameter \<open>rnd\<close>. With \<open>fl32\<close> they are the operations as the library
  carries them out on float32 tensors: \<open>estimator(X) / self.n_estimators\<close> rounds every
  quotient, \<open>proba += ...\<close> rounds every sum, and \<open>F.softmax\<close> subtracts the maximum
  of the row, exponentiates, sums from left to right and divides, rounding each time
  (the exponential is taken as correctly rounded). With the identity they are the exact
  operations \<open>div_scalar\<close>, \<open>add_tensor\<close>, \<open>accumulate\<close>, \<open>softmax_row\<close> and the
  forward passes built on them, which are their reading over the reals.
\<close>

definition div_scalar_rnd :: "(real \<Rightarrow> real) \<Rightarrow> tensor \<Rightarrow> int \<Rightarrow> tensor" where
  "div_scalar_rnd rnd t k = map (map (\<lambda>v. rnd (v / of_int k))) t"

definition add_tensor_rnd :: "(real \<Rightarrow> real) \<Rightarrow> tensor \<Rightarrow> tensor \<Rightarrow> tensor" where
  "add_tensor_rnd rnd p q = map2 (map2 (\<lambda>a b. rnd (a + b))) p q"

fun accumulate_rnd ::
  "(real \<Rightarrow> real) \<Rightarrow> ('e, 'x, 't, 'o) backend \<Rightarrow> 'e ensemble \<Rightarrow> nat \<Rightarrow> 'x list \<Rightarrow> 'e list
     \<Rightarrow> tensor \<Rightarrow> failure + tensor" where
  "accumulate_rnd rnd B s n X [] proba = Inr proba"
| "accumulate_rnd rnd B s n X (est # rest) proba =
     (case run B est (training s) X of
        Inl e \<Rightarrow> Inl e
      | Inr y \<Rightarrow>
          if n_estimators s = 0 \<and> concat y \<noteq> [] then Inl NonFinite
          else (case expand_to (length X) n (div_scalar_rnd rnd y (n_estimators s)) of
                  Inl e \<Rightarrow> Inl e
                | Inr y' \<Rightarrow> accumulate_rnd rnd B s n X rest (add_tensor_rnd rnd proba y')))"

definition cls__forward_rnd ::
  "(real \<Rightarrow> real) \<Rightarrow> ('e, 'x, 't, 'o) backend \<Rightarrow> 'e ensemble \<Rightarrow> 'x list
     \<Rightarrow> failure + tensor" where
  "cls__forward_rnd rnd B s X =
     (case n_outputs s of
        None \<Rightarrow> Inl AttributeError
      | Some n \<Rightarrow> accumulate_rnd rnd B s n X (estimators s) (zeros (length X) n))"

definition reg_forward_rnd ::
  "(real \<Rightarrow> real) \<Rightarrow> ('e, 'x, 't, 'o) backend \<Rightarrow> 'e ensemble \<Rightarrow> 'x list
     \<Rightarrow> failure + tensor" where
  "reg_forward_rnd rnd B s X =
     (case n_outputs s of
        None \<Rightarrow> Inl AttributeError
      | Some n \<Rightarrow> accumulate_rnd rnd B s n X (estimators s) (zeros (length X) n))"

definition softmax_row_rnd :: "(real \<Rightarrow> real) \<Rightarrow> real list \<Rightarrow> real list" where
  "softmax_row_rnd rnd r =
     (if r = [] then []
      else let m = Max (set r);
               es = map (\<lambda>v. rnd (exp (rnd (v - m)))) r;
               S = foldl (\<lambda>a e. rnd (a + e)) 0 es
           in map (\<lambda>e. rnd (e / S)) es)"

definition softmax_rnd :: "(real \<Rightarrow> real) \<Rightarrow> tensor \<Rightarrow> tensor" where
  "softmax_rnd rnd t = map (softmax_row_rnd rnd) t"

definition cls_forward_rnd ::
  "(real \<Rightarrow> real) \<Rightarrow> ('e, 'x, 't, 'o) backend \<Rightarrow> 'e ensemble \<Rightarrow> 'x list
     \<Rightarrow> failure + tensor" where
  "cls_forward_rnd rnd B s X =
     (case cls__forward_rnd rnd B s X of
        Inl e \<Rightarrow> Inl e
      | Inr proba \<Rightarrow> Inr (softmax_rnd rnd proba))"

subsection \<open>Further examples\<close>

text \<open>
  Ten estimators that all return \<open>[1]\<close>, and one estimator that returns the row
  \<open>[0, 2 ^ (-40)]\<close>, whose two entries are float32 numbers.
\<close>

definition ten_ones :: "real list ensemble" where
  "ten_ones =
     \<lparr>n_estimators = 10, device = ''cpu'', estimators = [[1], [1], [1], [1], [1], [1], [1], [1], [1], [1]],
      n_outputs = Some 1, training = False, factory_calls = 10\<rparr>"

definition near_tie :: "real list ensemble" where
  "near_tie =
     \<lparr>n_estimators = 1, device = ''cpu'', estimators = [[0, 1 / 2 ^ 40]],
      n_outputs = Some 2, training = False, factory_calls = 1\<rparr>"

text \<open>
  The ensemble of two estimators after its first and after its second \<open>fit\<close> with the
  concrete collaborators.
\<close>

definition once_fitted :: "real list ensemble" where
  "once_fitted =
     \<lparr>n_estimators = 2, device = ''cpu'', estimators = [[1, 0], [1, 0]],
      n_outputs = Some 2, training = True, factory_calls = 2\<rparr>"

definition twice_fitted :: "real list ensemble" where
  "twice_fitted =
     \<lparr>n_estimators = 2, device = ''cpu'', estimators = [[1, 0], [1, 0], [1, 0], [1, 0]],
      n_outputs = Some 2, training = True, factory_calls = 4\<rparr>"

section \<open>Auxiliary lemmas\<close>

lemma has_shape_nth: "has_shape b n t \<Longrightarrow> i < b \<Longrightarrow> length (t ! i) = n"
  by (simp add: has_shape_def list_all_length)

lemma has_shape_rectangular: "has_shape b n t \<Longrightarrow> rectangular t"
  by (cases t) (auto simp: has_shape_def rectangular_def width_def list_all_iff)

lemma has_shape_width: "has_shape b n t \<Longrightarrow> t \<noteq> [] \<Longrightarrow> width t = n"
  by (cases t) (auto simp: has_shape_def width_def)

lemma expand_row_same: "length r = n \<Longrightarrow> expand_row n r = r"
  by (simp add: expand_row_def)

lemma expand_to_same: "has_shape b n t \<Longrightarrow> expand_to b n t = Inr t"
proof -
  assume h: "has_shape b n t"
  have r: "rectangular t" using h by (rule has_shape_rectangular)
  have l: "length t = b" using h by (simp add: has_shape_def)
  have m: "map (expand_row n) t = t"
    using h by (simp add: has_shape_def list_all_iff expand_row_same map_idI)
  show ?thesis
  proof (cases "t = []")
    case True
    then show ?thesis using l by (simp add: expand_to_def rectangular_def width_def)
  next
    case False
    then have "width t = n" using h by (simp add: has_shape_width)
    then show ?thesis using r l m by (simp add: expand_to_def)
  qed
qed

lemma has_shape_zeros: "has_shape b n (zeros b n)"
  by (simp add: has_shape_def zeros_def list_all_iff)

lemma zeros_nth: "i < b \<Longrightarrow> j < n \<Longrightarrow> zeros b n ! i ! j = 0"
  by (simp add: zeros_def)

lemma has_shape_div_scalar: "has_shape b n t \<Longrightarrow> has_shape b n (div_scalar t k)"
  by (simp add: has_shape_def div_scalar_def list_all_iff)

lemma div_scalar_nth:
  "has_shape b n t \<Longrightarrow> i < b \<Longrightarrow> j < n \<Longrightarrow> div_scalar t k ! i ! j = t ! i ! j / of_int k"
  by (simp add: div_scalar_def has_shape_def list_all_length)

lemma has_shape_add_tensor:
  "has_shape b n p \<Longrightarrow> has_shape b n q \<Longrightarrow> has_shape b n (add_tensor p q)"
  by (auto simp: has_shape_def add_tensor_def list_all_length)

lemma add_tensor_nth:
  "has_shape b n p \<Longrightarrow> has_shape b n q \<Longrightarrow> i < b \<Longrightarrow> j < n \<Longrightarrow>
   add_tensor p q ! i ! j = p ! i ! j + q ! i ! j"
  by (simp add: has_shape_def add_tensor_def list_all_length)

lemma accumulate_sum:
  assumes "n_estimators s \<noteq> 0"
    and "map (\<lambda>e. run B e (training s) X) ests = map Inr ys"
    and "\<forall>y\<in>set ys. has_shape (length X) n y"
    and "has_shape (length X) n p"
  shows "\<exists>P. accumulate B s n X ests p = Inr P \<and> has_shape (length X) n P \<and>
           (\<forall>i<length X. \<forall>j<n.
              P ! i ! j = p ! i ! j + (\<Sum>y\<leftarrow>ys. y ! i ! j / of_int (n_estimators s)))"
  using assms(2-4)
proof (induction ests arbitrary: ys p)
  case Nil
  then show ?case by simp
next
  case (Cons e ests)
  from Cons.prems(1) obtain y ys' where ys: "ys = y # ys'"
    and run: "run B e (training s) X = Inr y"
    and rest: "map (\<lambda>e. run B e (training s) X) ests = map Inr ys'"
    by (cases ys) auto
  have shy: "has_shape (length X) n y" and shys: "\<forall>y\<in>set ys'. has_shape (length X) n y"
    using Cons.prems(2) ys by auto
  let ?d = "div_scalar y (n_estimators s)"
  have shd: "has_shape (length X) n ?d" using shy by (rule has_shape_div_scalar)
  have ex: "expand_to (length X) n ?d = Inr ?d" using shd by (rule expand_to_same)
  have shp: "has_shape (length X) n (add_tensor p ?d)"
    using Cons.prems(3) shd by (rule has_shape_add_tensor)
  from Cons.IH [OF rest shys shp] obtain P where
    acc: "accumulate B s n X ests (add_tensor p ?d) = Inr P"
    and shP: "has_shape (length X) n P"
    and val: "\<forall>i<length X. \<forall>j<n. P ! i ! j =
       add_tensor p ?d ! i ! j + (\<Sum>y\<leftarrow>ys'. y ! i ! j / of_int (n_estimators s))"
    by blast
  have "accumulate B s n X (e # ests) p = Inr P"
    using run ex acc assms(1) by simp
  moreover have "\<forall>i<length X. \<forall>j<n.
      P ! i ! j = p ! i ! j + (\<Sum>y\<leftarrow>ys. y ! i ! j / of_int (n_estimators s))"
  proof (intro allI impI)
    fix i j assume i: "i < length X" and j: "j < n"
    have "add_tensor p ?d ! i ! j = p ! i ! j + y ! i ! j / of_int (n_estimators s)"
      using add_tensor_nth [OF Cons.prems(3) shd i j] div_scalar_nth [OF shy i j] by simp
    then show "P ! i ! j = p ! i ! j + (\<Sum>y\<leftarrow>ys. y ! i ! j / of_int (n_estimators s))"
      using val i j ys by simp
  qed
  ultimately show ?case using shP by blast
qed

lemma sum_list_divide: "(\<Sum>y\<leftarrow>ys. f y / (c::real)) = (\<Sum>y\<leftarrow>ys. f y) / c"
  by (induction ys) (simp_all add: add_divide_distrib)

lemma averaged_output:
  assumes "n_outputs s = Some n"
    and "n_estimators s = int (length (estimators s))"
    and "1 \<le> length (estimators s)"
    and "map (\<lambda>e. run B e (training s) X) (estimators s) = map Inr ys"
    and "\<forall>y\<in>set ys. has_shape (length X) n y"
  shows "\<exists>P. accumulate B s n X (estimators s) (zeros (length X) n) = Inr P \<and>
           has_shape (length X) n P \<and>
           (\<forall>i<length X. \<forall>j<n. P ! i ! j = (\<Sum>y\<leftarrow>ys. y ! i ! j) / real (length ys))"
proof -
  have nz: "n_estimators s \<noteq> 0" using assms(2,3) by (cases "estimators s") simp_all
  have len: "length ys = length (estimators s)"
    using assms(4) by (metis length_map)
  from accumulate_sum [OF nz assms(4) assms(5) has_shape_zeros] obtain P where
    acc: "accumulate B s n X (estimators s) (zeros (length X) n) = Inr P"
    and shP: "has_shape (length X) n P"
    and val: "\<forall>i<length X. \<forall>j<n. P ! i ! j =
       zeros (length X) n ! i ! j + (\<Sum>y\<leftarrow>ys. y ! i ! j / of_int (n_estimators s))"
    by blast
  have "\<forall>i<length X. \<forall>j<n. P ! i ! j = (\<Sum>y\<leftarrow>ys. y ! i ! j) / real (length ys)"
    using val by (simp add: zeros_nth sum_list_divide assms(2) len)
  then show ?thesis using acc shP by blast
qed

lemma params_updated_refl: "params_updated s s"
  by (simp add: params_updated_def)

lemma params_updated_trans:
  "params_updated s s' \<Longrightarrow> params_updated s' s'' \<Longrightarrow> params_updated s s''"
  by (auto simp: params_updated_def)

lemma params_updated_apply_step: "params_updated s (apply_step B opt batch s)"
  by (auto simp: params_updated_def apply_step_def)

lemma cls_train_batches_frame:
  "cls_train_batches B li ep bi bs (s, opt, lg) = ((s', opt', lg'), r) \<Longrightarrow> params_updated s s'"
proof (induction bs arbitrary: bi s opt lg)
  case Nil
  then show ?case by (simp add: params_updated_refl)
next
  case (Cons b bs)
  obtain d t where b: "b = (d, t)" by (cases b)
  let ?s = "apply_step B opt (d, t) s"
  have st: "params_updated s ?s" by (rule params_updated_apply_step)
  from Cons.prems show ?case
    unfolding b
    by (auto simp: Let_def params_updated_refl st
        split: sum.splits if_splits
        dest!: Cons.IH intro: params_updated_trans [OF st])
qed

lemma cls_train_epochs_frame:
  "cls_train_epochs B li L ep k (s, opt, lg) = ((s', opt', lg'), r) \<Longrightarrow> params_updated s s'"
proof (induction k arbitrary: ep s opt lg)
  case 0
  then show ?case by (simp add: params_updated_refl)
next
  case (Suc k)
  obtain s1 o1 l1 r1 where
    e: "cls_train_batches B li ep 0 (batches L) (s, opt, lg) = ((s1, o1, l1), r1)"
    by (metis prod_cases3 surj_pair)
  have s1: "params_updated s s1" using e by (rule cls_train_batches_frame)
  show ?case
  proof (cases r1)
    case None
    with Suc.prems e have "cls_train_epochs B li L (Suc ep) k (s1, o1, l1) = ((s', opt', lg'), r)"
      by simp
    then have "params_updated s1 s'" by (rule Suc.IH)
    with s1 show ?thesis by (rule params_updated_trans)
  next
    case (Some a)
    with Suc.prems e have "s' = s1" by simp
    with s1 show ?thesis by simp
  qed
qed

lemma reg_train_batches_frame:
  "reg_train_batches B li ep bi bs (s, opt, lg) = ((s', opt', lg'), r) \<Longrightarrow> params_updated s s'"
proof (induction bs arbitrary: bi s opt lg)
  case Nil
  then show ?case by (simp add: params_updated_refl)
next
  case (Cons b bs)
  obtain d t where b: "b = (d, t)" by (cases b)
  let ?s = "apply_step B opt (d, t) s"
  have st: "params_updated s ?s" by (rule params_updated_apply_step)
  from Cons.prems show ?case
    unfolding b
    by (auto simp: Let_def params_updated_refl st
        split: sum.splits if_splits
        dest!: Cons.IH intro: params_updated_trans [OF st])
qed

lemma reg_train_epochs_frame:
  "reg_train_epochs B li L ep k (s, opt, lg) = ((s', opt', lg'), r) \<Longrightarrow> params_updated s s'"
proof (induction k arbitrary: ep s opt lg)
  case 0
  then show ?case by (simp add: params_updated_refl)
next
  case (Suc k)
  obtain s1 o1 l1 r1 where
    e: "reg_train_batches B li ep 0 (batches L) (s, opt, lg) = ((s1, o1, l1), r1)"
    by (metis prod_cases3 surj_pair)
  have s1: "params_updated s s1" using e by (rule reg_train_batches_frame)
  show ?case
  proof (cases r1)
    case None
    with Suc.prems e have "reg_train_epochs B li L (Suc ep) k (s1, o1, l1) = ((s', opt', lg'), r)"
      by simp
    then have "params_updated s1 s'" by (rule Suc.IH)
    with s1 show ?thesis by (rule params_updated_trans)
  next
    case (Some a)
    with Suc.prems e have "s' = s1" by simp
    with s1 show ?thesis by simp
  qed
qed

lemma instantiate_frame:
  "instantiate B k s = (s', r) \<Longrightarrow> fit_effect s s'"
proof (induction k arbitrary: s)
  case 0
  then show ?case by (simp add: fit_effect_def)
next
  case (Suc k)
  show ?case
  proof (cases "make_estimator B (factory_calls s)")
    case (Inl e)
    with Suc.prems show ?thesis by (auto simp: fit_effect_def)
  next
    case (Inr est)
    with Suc.prems have "instantiate B k
        (s\<lparr>estimators := estimators s @ [est], factory_calls := Suc (factory_calls s)\<rparr>)
        = (s', r)"
      by simp
    from Suc.IH [OF this] show ?thesis by (simp add: fit_effect_def)
  qed
qed

lemma fit_effect_n_outputs: "fit_effect s s' \<Longrightarrow> fit_effect s (s'\<lparr>n_outputs := no\<rparr>)"
  by (simp add: fit_effect_def)

lemma fit_effect_training: "fit_effect s s' \<Longrightarrow> fit_effect s (s'\<lparr>training := tr\<rparr>)"
  by (simp add: fit_effect_def)

lemma fit_effect_params: "fit_effect s s' \<Longrightarrow> params_updated s' s'' \<Longrightarrow> fit_effect s s''"
  by (auto simp: fit_effect_def params_updated_def)

lemma only_fit_fields:
  "n_estimators s' = n_estimators (s :: 'e ensemble) \<Longrightarrow> device s' = device s \<Longrightarrow>
   s' = s\<lparr>estimators := estimators s', n_outputs := n_outputs s',
          training := training s', factory_calls := factory_calls s'\<rparr>"
  by (cases s, cases s') simp

lemma cls_fit_effect:
  "fit_effect s (fst (cls_fit B s L lr wd ep on li))"
proof -
  obtain s1 r1 where i: "instantiate B (nat (n_estimators s)) s = (s1, r1)"
    by (cases "instantiate B (nat (n_estimators s)) s")
  have e1: "fit_effect s s1" using i by (rule instantiate_frame)
  show ?thesis
  proof (cases r1)
    case (Some e)
    then show ?thesis using i e1 by (simp add: cls_fit_def)
  next
    case None
    show ?thesis
    proof (cases "decide_n_outputs B L True")
      case (Inl e)
      then show ?thesis using i None e1 by (simp add: cls_fit_def)
    next
      case (Inr n)
      let ?s2 = "s1\<lparr>n_outputs := Some n\<rparr>"
      have e2: "fit_effect s ?s2" using e1 by (rule fit_effect_n_outputs)
      show ?thesis
      proof (cases "set_optimizer B (estimators ?s2) on lr wd")
        case (Inl e)
        then show ?thesis using i None Inr e2 by (simp add: cls_fit_def)
      next
        case opt: (Inr opt)
        let ?s3 = "?s2\<lparr>training := True\<rparr>"
        have e3: "fit_effect s ?s3" using e2 by (rule fit_effect_training)
        show ?thesis
        proof (cases "validate_parameters lr wd ep li")
          case (Some e)
          then show ?thesis using i None Inr opt e3 by (simp add: cls_fit_def)
        next
          case v: None
          obtain s4 o4 l4 r4 where
            t: "cls_train_epochs B li L 0 (nat ep) (?s3, opt, []) = ((s4, o4, l4), r4)"
            by (metis prod_cases3 surj_pair)
          have "params_updated ?s3 s4" using t by (rule cls_train_epochs_frame)
          with e3 have "fit_effect s s4" by (rule fit_effect_params)
          moreover have "fst (cls_fit B s L lr wd ep on li) = s4"
            using i None Inr opt v t by (simp add: cls_fit_def)
          ultimately show ?thesis by simp
        qed
      qed
    qed
  qed
qed

lemma reg_fit_effect:
  "fit_effect s (fst (reg_fit B s L lr wd ep on li))"
proof -
  obtain s1 r1 where i: "instantiate B (nat (n_estimators s)) s = (s1, r1)"
    by (cases "instantiate B (nat (n_estimators s)) s")
  have e1: "fit_effect s s1" using i by (rule instantiate_frame)
  show ?thesis
  proof (cases r1)
    case (Some e)
    then show ?thesis using i e1 by (simp add: reg_fit_def)
  next
    case None
    show ?thesis
    proof (cases "decide_n_outputs B L False")
      case (Inl e)
      then show ?thesis using i None e1 by (simp add: reg_fit_def)
    next
      case (Inr n)
      let ?s2 = "s1\<lparr>n_outputs := Some n\<rparr>"
      have e2: "fit_effect s ?s2" using e1 by (rule fit_effect_n_outputs)
      show ?thesis
      proof (cases "set_optimizer B (estimators ?s2) on lr wd")
        case (Inl e)
        then show ?thesis using i None Inr e2 by (simp add: reg_fit_def)
      next
        case opt: (Inr opt)
        let ?s3 = "?s2\<lparr>training := True\<rparr>"
        have e3: "fit_effect s ?s3" using e2 by (rule fit_effect_training)
        show ?thesis
        proof (cases "validate_parameters lr wd ep li")
          case (Some e)
          then show ?thesis using i None Inr opt e3 by (simp add: reg_fit_def)
        next
          case v: None
          obtain s4 o4 l4 r4 where
            t: "reg_train_epochs B li L 0 (nat ep) (?s3, opt, []) = ((s4, o4, l4), r4)"
            by (metis prod_cases3 surj_pair)
          have "params_updated ?s3 s4" using t by (rule reg_train_epochs_frame)
          with e3 have "fit_effect s s4" by (rule fit_effect_params)
          moreover have "fst (reg_fit B s L lr wd ep on li) = s4"
            using i None Inr opt v t by (simp add: reg_fit_def)
          ultimately show ?thesis by simp
        qed
      qed
    qed
  qed
qed

lemma first_max_mono:
  assumes "\<And>a b. (f a < f b) = (a < b)"
  shows "first_max (f b) k i (map f vs) = first_max b k i vs"
  by (induction vs arbitrary: b k i) (simp_all add: assms)

lemma sum_exp_pos: "r \<noteq> [] \<Longrightarrow> 0 < sum_list (map exp (r :: real list))"
proof (cases r)
  case Nil
  assume "r \<noteq> []"
  with Nil show ?thesis by simp
next
  case (Cons v vs)
  have "0 \<le> sum_list (map exp vs)" by (rule sum_list_nonneg) auto
  moreover have "0 < exp v" by simp
  ultimately show ?thesis using Cons by (simp add: add_pos_nonneg)
qed

lemma argmax_row_softmax: "argmax_row (softmax_row r) = argmax_row r"
proof (cases r)
  case Nil
  then show ?thesis by (simp add: softmax_row_def)
next
  case (Cons v vs)
  define S where "S = sum_list (map exp r)"
  have S: "0 < S" unfolding S_def using Cons by (intro sum_exp_pos) simp
  define f where "f = (\<lambda>x::real. exp x / S)"
  have mono: "\<And>a b. (f a < f b) = (a < b)"
    using S by (simp add: f_def divide_less_cancel)
  have "softmax_row r = f v # map f vs"
    by (simp add: softmax_row_def S_def f_def Cons)
  then show ?thesis
    using first_max_mono [of f v 0 1 vs, OF mono] Cons by (simp add: argmax_row_def)
qed

lemma argmax_rows_softmax: "argmax_rows (softmax t) = argmax_rows t"
  by (induction t) (simp_all add: softmax_def argmax_row_softmax cong: sum.case_cong)

lemma softmax_row_pos: "v \<in> set (softmax_row r) \<Longrightarrow> 0 < v"
proof -
  assume v: "v \<in> set (softmax_row r)"
  then have "r \<noteq> []" by (auto simp: softmax_row_def)
  then have "0 < sum_list (map exp r)" by (rule sum_exp_pos)
  with v show ?thesis by (auto simp: softmax_row_def)
qed

lemma softmax_row_sum: "r \<noteq> [] \<Longrightarrow> sum_list (softmax_row r) = 1"
proof -
  assume "r \<noteq> []"
  then have "0 < sum_list (map exp r)" by (rule sum_exp_pos)
  then show ?thesis
    by (simp add: softmax_row_def sum_list_divide)
qed

lemma length_expand_row: "length (expand_row n r) = n"
  by (simp add: expand_row_def)

lemma expand_to_shape: "expand_to b n t = Inr t' \<Longrightarrow> has_shape b n t'"
proof -
  assume e: "expand_to b n t = Inr t'"
  let ?rs = "map (expand_row n) t"
  have rows: "list_all (\<lambda>r. length r = n) ?rs"
    by (simp add: list_all_iff length_expand_row)
  show ?thesis
  proof (cases "length t = b")
    case True
    with e have "t' = ?rs" by (simp add: expand_to_def split: if_splits)
    then show ?thesis using True rows by (simp add: has_shape_def)
  next
    case False
    with e have t': "t' = replicate b (hd ?rs)" and "length t = 1"
      by (simp_all add: expand_to_def split: if_splits)
    then obtain r where "t = [r]" by (cases t) auto
    then have "length (hd ?rs) = n" by (simp add: length_expand_row)
    then show ?thesis by (simp add: t' has_shape_def list_all_iff)
  qed
qed

lemma accumulate_shape:
  "accumulate B s n X ests p = Inr P \<Longrightarrow> has_shape (length X) n p \<Longrightarrow> has_shape (length X) n P"
proof (induction ests arbitrary: p)
  case Nil
  then show ?case by simp
next
  case (Cons e ests)
  from Cons.prems(1) obtain y y' where
    "expand_to (length X) n (div_scalar y (n_estimators s)) = Inr y'"
    and acc: "accumulate B s n X ests (add_tensor p y') = Inr P"
    by (auto split: sum.splits if_splits)
  then have "has_shape (length X) n y'" by (simp add: expand_to_shape)
  with Cons.prems(2) have "has_shape (length X) n (add_tensor p y')"
    by (rule has_shape_add_tensor)
  with acc show ?case by (rule Cons.IH)
qed

lemma cls__forward_shape:
  "cls__forward B s X = Inr Q \<Longrightarrow> n_outputs s = Some n \<Longrightarrow> has_shape (length X) n Q"
  by (auto simp: cls__forward_def intro: accumulate_shape has_shape_zeros)

lemma reg_forward_shape:
  "reg_forward B s X = Inr Q \<Longrightarrow> n_outputs s = Some n \<Longrightarrow> has_shape (length X) n Q"
  by (auto simp: reg_forward_def intro: accumulate_shape has_shape_zeros)

lemma cls_forward_Inr:
  "cls_forward B s X = Inr P \<Longrightarrow> \<exists>Q. cls__forward B s X = Inr Q \<and> P = softmax Q"
  by (auto simp: cls_forward_def split: sum.splits)

lemma argmax_rows_length: "argmax_rows t = Inr ps \<Longrightarrow> length ps = length t"
  by (induction t arbitrary: ps) (auto split: sum.splits)

lemma cls_forward_length: "cls_forward B s X = Inr P \<Longrightarrow> length P = length X"
proof -
  assume a: "cls_forward B s X = Inr P"
  then obtain Q where Q: "cls__forward B s X = Inr Q" and P: "P = softmax Q"
    using cls_forward_Inr by blast
  from Q obtain n where "n_outputs s = Some n"
    by (cases "n_outputs s") (auto simp: cls__forward_def)
  with Q have "has_shape (length X) n Q" by (rule cls__forward_shape)
  then show ?thesis by (simp add: P softmax_def has_shape_def)
qed

lemma cls_pred_length: "cls_pred B s d = Inr p \<Longrightarrow> length p = length d"
  by (auto simp: cls_pred_def split: sum.splits
      dest!: argmax_rows_length cls_forward_length)

lemma eq_sum_same_length:
  "length pred = length target \<Longrightarrow> eq_sum pred target = Inr (matches pred target)"
  by (simp add: eq_sum_def matches_def)

lemma matches_le: "matches p t \<le> length p"
proof -
  have "matches p t \<le> length (zip p t)" unfolding matches_def by (rule length_filter_le)
  then show ?thesis by simp
qed

lemma matches_full:
  "length p = length t \<Longrightarrow> (matches p t = length p) = (map int p = t)"
proof (induction p t rule: list_induct2)
  case Nil
  then show ?case by (simp add: matches_def)
next
  case (Cons x xs y ys)
  have le: "matches xs ys \<le> length xs" by (rule matches_le)
  have "matches (x # xs) (y # ys) = (if int x = y then 1 else 0) + matches xs ys"
    by (simp add: matches_def)
  then show ?case using Cons.IH le by auto
qed

lemma cls_count_correct_step:
  assumes "cls_count_correct B s ((d, t) # bs) c = Inr k" and "length t = length d"
  shows "\<exists>p. cls_pred B s d = Inr p \<and> length p = length d \<and>
             cls_count_correct B s bs (c + matches p t) = Inr k"
proof -
  from assms(1) obtain out p c' where out: "cls_forward B s d = Inr out"
    and p: "argmax_rows out = Inr p" and e: "eq_sum p t = Inr c'"
    and k: "cls_count_correct B s bs (c + c') = Inr k"
    by (auto split: sum.splits)
  have cp: "cls_pred B s d = Inr p" using out p by (simp add: cls_pred_def)
  then have len: "length p = length d" by (rule cls_pred_length)
  then have "eq_sum p t = Inr (matches p t)" using assms(2) by (simp add: eq_sum_same_length)
  with e have "c' = matches p t" by simp
  with cp len k show ?thesis by blast
qed

lemma cls_count_correct_sound:
  assumes "cls_count_correct B s bs c = Inr k"
    and "list_all (\<lambda>b. length (snd b) = length (fst b)) bs"
  shows "k = c + sum_list (map (batch_correct B s) bs) \<and>
         sum_list (map (batch_correct B s) bs) \<le> examples bs \<and>
         (sum_list (map (batch_correct B s) bs) = examples bs) = list_all (all_match B s) bs"
  using assms
proof (induction bs arbitrary: c)
  case Nil
  then show ?case by (simp add: examples_def)
next
  case (Cons b bs)
  obtain d t where b: "b = (d, t)" by (cases b)
  have lt: "length t = length d" and rest: "list_all (\<lambda>b. length (snd b) = length (fst b)) bs"
    using Cons.prems(2) b by simp_all
  from cls_count_correct_step [OF Cons.prems(1) [unfolded b] lt] obtain p where
    cp: "cls_pred B s d = Inr p" and len: "length p = length d"
    and k: "cls_count_correct B s bs (c + matches p t) = Inr k"
    by blast
  have bc: "batch_correct B s b = matches p t" using cp b by (simp add: batch_correct_def)
  have am: "all_match B s b = (map int p = t)" using cp b by (simp add: all_match_def)
  have le: "matches p t \<le> length d" using matches_le [of p t] len by simp
  have full: "(matches p t = length d) = (map int p = t)"
    using matches_full [of p t] len lt by simp
  note IH = Cons.IH [OF k rest]
  have ex: "examples (b # bs) = length d + examples bs" using b by (simp add: examples_def)
  show ?case
    using IH bc am le full ex by auto
qed







lemmas tensor_eval =
  zeros_def div_scalar_def add_tensor_def expand_to_def rectangular_def width_def
  expand_row_def numeral_2_eq_2 numeral_3_eq_3

lemma three_classifiers__forward1:
  "cls__forward cls_backend (three_classifiers\<lparr>training := False\<rparr>) [()] = Inr [[1, 0]]"
  by (simp add: cls__forward_def three_classifiers_def const_backend_def tensor_eval)

lemma three_classifiers__forward2:
  "cls__forward cls_backend (three_classifiers\<lparr>training := False\<rparr>) [(), ()]
     = Inr [[1, 0], [1, 0]]"
  by (simp add: cls__forward_def three_classifiers_def const_backend_def tensor_eval)

lemma three_classifiers_pred2:
  "cls_pred cls_backend (three_classifiers\<lparr>training := False\<rparr>) [(), ()] = Inr [0, 0]"
  by (simp add: cls_pred_def cls_forward_def three_classifiers__forward2
      argmax_rows_softmax argmax_row_def)

lemma two_regressors_forward1:
  "reg_forward reg_backend (two_regressors\<lparr>training := False\<rparr>) [()] = Inr [[3]]"
  by (simp add: reg_forward_def two_regressors_def const_backend_def tensor_eval)

lemma two_regressors_forward3:
  "reg_forward reg_backend (two_regressors\<lparr>training := False\<rparr>) [(), (), ()]
     = Inr [[3], [3], [3]]"
  by (simp add: reg_forward_def two_regressors_def const_backend_def tensor_eval)

lemma mse_35: "mse_loss [[3]] [[5]] = Inr 4"
  by (simp add: mse_loss_def bdim_def sq_diffs_def tensor_eval)

lemma mse_333: "mse_loss [[3], [3], [3]] [[3], [3], [3]] = Inr 0"
  by (simp add: mse_loss_def bdim_def sq_diffs_def tensor_eval)

lemma fl32_binade:
  assumes "2 powr of_int e \<le> \<bar>x\<bar>" and "\<bar>x\<bar> < 2 powr (of_int e + 1)" and "- 126 \<le> e"
  shows "fl32 x = sgn x * (of_int (rne (\<bar>x\<bar> / 2 powr (of_int e - 23))) * 2 powr (of_int e - 23))"
proof -
  have "0 < (2::real) powr of_int e" by simp
  with assms(1) have pos: "0 < \<bar>x\<bar>" by linarith
  then have "\<lfloor>log 2 \<bar>x\<bar>\<rfloor> = e"
    using assms(1,2) by (simp add: floor_log_eq_powr_iff)
  then show ?thesis using pos assms(3) by (simp add: fl32_def Let_def max_def)
qed

lemma rne_floor: "\<lfloor>z\<rfloor> \<le> rne z \<and> rne z \<le> \<lfloor>z\<rfloor> + 1"
  by (simp add: rne_def Let_def)

lemma rne_of_int [simp]: "rne (of_int n) = n"
  by (simp add: rne_def)

lemma rne_ge: "of_int n \<le> z \<Longrightarrow> n \<le> rne z"
proof -
  assume "of_int n \<le> z"
  then have "n \<le> \<lfloor>z\<rfloor>" by (simp add: le_floor_iff)
  then show ?thesis using rne_floor [of z] by linarith
qed

lemma rne_le: "z \<le> of_int n \<Longrightarrow> rne z \<le> n"
proof (cases "z = of_int n")
  case True
  then show ?thesis by simp
next
  case False
  assume "z \<le> of_int n"
  with False have "z < of_int n" by simp
  then have "\<lfloor>z\<rfloor> < n" by (simp add: floor_less_iff)
  then show ?thesis using rne_floor [of z] by linarith
qed

lemma rne_mono: "z \<le> w \<Longrightarrow> rne z \<le> rne w"
proof -
  assume zw: "z \<le> w"
  then have fl: "\<lfloor>z\<rfloor> \<le> \<lfloor>w\<rfloor>" by (rule floor_mono)
  show ?thesis
  proof (cases "\<lfloor>z\<rfloor> = \<lfloor>w\<rfloor>")
    case True
    then have "z - of_int \<lfloor>z\<rfloor> \<le> w - of_int \<lfloor>w\<rfloor>" using zw by simp
    then show ?thesis using True by (auto simp: rne_def Let_def)
  next
    case False
    with fl have "\<lfloor>z\<rfloor> + 1 \<le> \<lfloor>w\<rfloor>" by simp
    then show ?thesis using rne_floor [of z] rne_floor [of w] by linarith
  qed
qed

lemma fl32_0 [simp]: "fl32 0 = 0"
  by (simp add: fl32_def)

lemma fl32_minus: "fl32 (- x) = - fl32 x"
  by (simp add: fl32_def Let_def)

lemma fl32_pos_eq:
  "0 < x \<Longrightarrow>
   fl32 x = of_int (rne (x / 2 powr (of_int (max \<lfloor>log 2 x\<rfloor> (- 126)) - 23)))
            * 2 powr (of_int (max \<lfloor>log 2 x\<rfloor> (- 126)) - 23)"
  by (simp add: fl32_def Let_def)

lemma fl32_nonneg: "0 \<le> x \<Longrightarrow> 0 \<le> fl32 x"
proof (cases "x = 0")
  case True
  then show ?thesis by simp
next
  case False
  assume "0 \<le> x"
  with False have x: "0 < x" by simp
  let ?u = "2 powr (of_int (max \<lfloor>log 2 x\<rfloor> (- 126)) - 23) :: real"
  have "0 \<le> x / ?u" using x by simp
  then have "0 \<le> rne (x / ?u)" using rne_ge [of 0 "x / ?u"] by simp
  then show ?thesis using x by (simp add: fl32_pos_eq)
qed

lemma fl32_upper:
  assumes "0 < x"
  shows "fl32 x \<le> 2 powr (of_int (max \<lfloor>log 2 x\<rfloor> (- 126)) + 1)"
proof -
  let ?e = "max \<lfloor>log 2 x\<rfloor> (- 126)"
  let ?u = "2 powr (of_int ?e - 23) :: real"
  have "x < 2 powr (of_int \<lfloor>log 2 x\<rfloor> + 1)"
    using assms floor_log_eq_powr_iff [of x 2 "\<lfloor>log 2 x\<rfloor>"] by simp
  also have "\<dots> \<le> 2 powr (of_int ?e + 1)" by (simp add: powr_mono)
  finally have "x / ?u \<le> 2 powr (of_int ?e + 1) / ?u" by (simp add: divide_right_mono)
  also have "2 powr (of_int ?e + 1) / ?u = 2 powr 24"
    by (simp add: powr_diff [symmetric])
  also have "(2::real) powr 24 = of_int 16777216" by simp
  finally have "rne (x / ?u) \<le> 16777216" by (rule rne_le)
  then have "of_int (rne (x / ?u)) * ?u \<le> 16777216 * ?u"
    by (simp add: mult_right_mono)
  also have "16777216 * ?u = 2 powr (of_int ?e + 1)"
    by (simp add: powr_diff powr_add)
  finally show ?thesis using assms by (simp add: fl32_pos_eq)
qed

lemma fl32_lower:
  assumes "0 < x" and "- 126 \<le> \<lfloor>log 2 x\<rfloor>"
  shows "2 powr of_int \<lfloor>log 2 x\<rfloor> \<le> fl32 x"
proof -
  let ?e = "\<lfloor>log 2 x\<rfloor>"
  let ?u = "2 powr (of_int ?e - 23) :: real"
  have m: "max ?e (- 126) = ?e" using assms(2) by simp
  have "2 powr of_int ?e \<le> x"
    using assms(1) floor_log_eq_powr_iff [of x 2 ?e] by simp
  then have "2 powr of_int ?e / ?u \<le> x / ?u" by (simp add: divide_right_mono)
  moreover have "2 powr of_int ?e / ?u = 2 powr 23"
    by (simp add: powr_diff [symmetric])
  moreover have "(2::real) powr 23 = of_int 8388608" by simp
  ultimately have "of_int 8388608 \<le> x / ?u" by simp
  then have "8388608 \<le> rne (x / ?u)" by (rule rne_ge)
  then have "8388608 * ?u \<le> of_int (rne (x / ?u)) * ?u"
    by (simp add: mult_right_mono)
  moreover have "8388608 * ?u = 2 powr of_int ?e"
    by (simp add: powr_diff)
  ultimately show ?thesis using assms(1) m by (simp add: fl32_pos_eq)
qed

lemma fl32_mono_pos:
  assumes "0 < x" and "x \<le> y"
  shows "fl32 x \<le> fl32 y"
proof -
  let ?ex = "max \<lfloor>log 2 x\<rfloor> (- 126)" and ?ey = "max \<lfloor>log 2 y\<rfloor> (- 126)"
  have y: "0 < y" using assms by simp
  have "log 2 x \<le> log 2 y" using assms by simp
  then have "\<lfloor>log 2 x\<rfloor> \<le> \<lfloor>log 2 y\<rfloor>" by (rule floor_mono)
  then have le: "?ex \<le> ?ey" by simp
  show ?thesis
  proof (cases "?ex = ?ey")
    case True
    let ?u = "2 powr (of_int ?ex - 23) :: real"
    have "x / ?u \<le> y / ?u" using assms(2) by (simp add: divide_right_mono)
    then have "rne (x / ?u) \<le> rne (y / ?u)" by (rule rne_mono)
    then have "of_int (rne (x / ?u)) * ?u \<le> of_int (rne (y / ?u)) * ?u"
      by (simp add: mult_right_mono)
    then show ?thesis using assms(1) y True by (simp add: fl32_pos_eq)
  next
    case False
    with le have lt: "?ex + 1 \<le> ?ey" by simp
    then have n: "- 126 \<le> \<lfloor>log 2 y\<rfloor>" and ey: "?ey = \<lfloor>log 2 y\<rfloor>" by linarith+
    have "fl32 x \<le> 2 powr (of_int ?ex + 1)" using assms(1) by (rule fl32_upper)
    also have "\<dots> \<le> 2 powr of_int ?ey"
    proof -
      have "real_of_int ?ex + 1 \<le> real_of_int ?ey" using lt by linarith
      then show ?thesis by (simp add: powr_mono)
    qed
    also have "\<dots> \<le> fl32 y" using fl32_lower [OF y n] ey by simp
    finally show ?thesis .
  qed
qed

lemma fl32_mono: "x \<le> y \<Longrightarrow> fl32 x \<le> fl32 y"
proof -
  assume xy: "x \<le> y"
  consider "0 < x" | "x \<le> 0" "0 \<le> y" | "y < 0" by linarith
  then show ?thesis
  proof cases
    case 1
    then show ?thesis using xy by (rule fl32_mono_pos)
  next
    case 2
    have "fl32 x = - fl32 (- x)" by (simp add: fl32_minus)
    moreover have "0 \<le> fl32 (- x)" using 2(1) by (simp add: fl32_nonneg)
    moreover have "0 \<le> fl32 y" using 2(2) by (rule fl32_nonneg)
    ultimately show ?thesis by simp
  next
    case 3
    then have "fl32 (- y) \<le> fl32 (- x)" using xy by (intro fl32_mono_pos) simp_all
    then show ?thesis by (simp add: fl32_minus)
  qed
qed

lemma fl32_1 [simp]: "fl32 1 = 1"
  using fl32_binade [of 0 1] by (simp add: powr_minus_divide rne_def)

lemma div_scalar_rnd_exact: "div_scalar_rnd (\<lambda>x. x) t k = div_scalar t k"
  by (simp add: div_scalar_rnd_def div_scalar_def)

lemma add_tensor_rnd_exact: "add_tensor_rnd (\<lambda>x. x) p q = add_tensor p q"
  by (simp add: add_tensor_rnd_def add_tensor_def)

lemma accumulate_rnd_exact:
  "accumulate_rnd (\<lambda>x. x) B s n X ests p = accumulate B s n X ests p"
proof (induction ests arbitrary: p)
  case Nil
  show ?case by simp
next
  case (Cons e ests)
  show ?case
  proof (cases "run B e (training s) X")
    case (Inl a)
    then show ?thesis by simp
  next
    case (Inr y)
    show ?thesis
    proof (cases "expand_to (length X) n (div_scalar y (n_estimators s))")
      case (Inl a)
      then show ?thesis using Inr by (auto simp: div_scalar_rnd_exact)
    next
      case y': (Inr y')
      then show ?thesis
        using Inr by (auto simp: div_scalar_rnd_exact add_tensor_rnd_exact Cons.IH)
    qed
  qed
qed

lemma cls__forward_rnd_exact: "cls__forward_rnd (\<lambda>x. x) B s X = cls__forward B s X"
  by (simp add: cls__forward_rnd_def cls__forward_def accumulate_rnd_exact split: option.splits)

lemma reg_forward_rnd_exact: "reg_forward_rnd (\<lambda>x. x) B s X = reg_forward B s X"
  by (simp add: reg_forward_rnd_def reg_forward_def accumulate_rnd_exact split: option.splits)

lemma foldl_plus_sum_list: "foldl (\<lambda>a e. a + e) a es = a + sum_list (es :: real list)"
  by (induction es arbitrary: a) simp_all

lemma softmax_row_rnd_exact: "softmax_row_rnd (\<lambda>x. x) r = softmax_row r"
proof (cases "r = []")
  case True
  then show ?thesis by (simp add: softmax_row_rnd_def softmax_row_def)
next
  case False
  define m where "m = Max (set r)"
  have s: "sum_list (map (\<lambda>v. exp (v - m)) r) = sum_list (map exp r) / exp m"
    by (simp add: exp_diff sum_list_divide)
  have p: "0 < sum_list (map exp r)" using False by (rule sum_exp_pos)
  have "map (\<lambda>v. exp (v - m) / sum_list (map (\<lambda>v. exp (v - m)) r)) r
      = map (\<lambda>v. exp v / sum_list (map exp r)) r"
    unfolding s by (simp add: exp_diff)
  then show ?thesis
    using False
    by (simp add: softmax_row_rnd_def softmax_row_def Let_def foldl_plus_sum_list
        m_def comp_def)
qed

lemma softmax_rnd_exact: "softmax_rnd (\<lambda>x. x) t = softmax t"
  by (simp add: softmax_rnd_def softmax_def softmax_row_rnd_exact)

lemma cls_forward_rnd_exact: "cls_forward_rnd (\<lambda>x. x) B s X = cls_forward B s X"
  by (simp add: cls_forward_rnd_def cls_forward_def cls__forward_rnd_exact softmax_rnd_exact
      split: sum.splits)

lemma has_shape_div_scalar_rnd: "has_shape b n t \<Longrightarrow> has_shape b n (div_scalar_rnd rnd t k)"
  by (simp add: has_shape_def div_scalar_rnd_def list_all_iff)

lemma div_scalar_rnd_nth:
  "has_shape b n t \<Longrightarrow> i < b \<Longrightarrow> j < n \<Longrightarrow>
   div_scalar_rnd rnd t k ! i ! j = rnd (t ! i ! j / of_int k)"
  by (simp add: div_scalar_rnd_def has_shape_def list_all_length)

lemma has_shape_add_tensor_rnd:
  "has_shape b n p \<Longrightarrow> has_shape b n q \<Longrightarrow> has_shape b n (add_tensor_rnd rnd p q)"
  by (auto simp: has_shape_def add_tensor_rnd_def list_all_length)

lemma add_tensor_rnd_nth:
  "has_shape b n p \<Longrightarrow> has_shape b n q \<Longrightarrow> i < b \<Longrightarrow> j < n \<Longrightarrow>
   add_tensor_rnd rnd p q ! i ! j = rnd (p ! i ! j + q ! i ! j)"
  by (simp add: has_shape_def add_tensor_rnd_def list_all_length)

lemma accumulate_rnd_sum:
  assumes "n_estimators s \<noteq> 0"
    and "map (\<lambda>e. run B e (training s) X) ests = map Inr ys"
    and "\<forall>y\<in>set ys. has_shape (length X) n y"
    and "has_shape (length X) n p"
  shows "\<exists>P. accumulate_rnd rnd B s n X ests p = Inr P \<and> has_shape (length X) n P \<and>
           (\<forall>i<length X. \<forall>j<n.
              P ! i ! j =
                foldl (\<lambda>a y. rnd (a + rnd (y ! i ! j / of_int (n_estimators s))))
                  (p ! i ! j) ys)"
  using assms(2-4)
proof (induction ests arbitrary: ys p)
  case Nil
  then show ?case by simp
next
  case (Cons e ests)
  from Cons.prems(1) obtain y ys' where ys: "ys = y # ys'"
    and run: "run B e (training s) X = Inr y"
    and rest: "map (\<lambda>e. run B e (training s) X) ests = map Inr ys'"
    by (cases ys) auto
  have shy: "has_shape (length X) n y" and shys: "\<forall>y\<in>set ys'. has_shape (length X) n y"
    using Cons.prems(2) ys by auto
  let ?d = "div_scalar_rnd rnd y (n_estimators s)"
  have shd: "has_shape (length X) n ?d" using shy by (rule has_shape_div_scalar_rnd)
  have ex: "expand_to (length X) n ?d = Inr ?d" using shd by (rule expand_to_same)
  have shp: "has_shape (length X) n (add_tensor_rnd rnd p ?d)"
    using Cons.prems(3) shd by (rule has_shape_add_tensor_rnd)
  from Cons.IH [OF rest shys shp] obtain P where
    acc: "accumulate_rnd rnd B s n X ests (add_tensor_rnd rnd p ?d) = Inr P"
    and shP: "has_shape (length X) n P"
    and val: "\<forall>i<length X. \<forall>j<n. P ! i ! j =
       foldl (\<lambda>a y. rnd (a + rnd (y ! i ! j / of_int (n_estimators s))))
         (add_tensor_rnd rnd p ?d ! i ! j) ys'"
    by blast
  have "accumulate_rnd rnd B s n X (e # ests) p = Inr P"
    using run ex acc assms(1) by simp
  moreover have "\<forall>i<length X. \<forall>j<n.
      P ! i ! j = foldl (\<lambda>a y. rnd (a + rnd (y ! i ! j / of_int (n_estimators s))))
                    (p ! i ! j) ys"
  proof (intro allI impI)
    fix i j assume i: "i < length X" and j: "j < n"
    have "add_tensor_rnd rnd p ?d ! i ! j
        = rnd (p ! i ! j + rnd (y ! i ! j / of_int (n_estimators s)))"
      using add_tensor_rnd_nth [OF Cons.prems(3) shd i j] div_scalar_rnd_nth [OF shy i j]
      by simp
    then show "P ! i ! j = foldl (\<lambda>a y. rnd (a + rnd (y ! i ! j / of_int (n_estimators s))))
                    (p ! i ! j) ys"
      using val i j ys by simp
  qed
  ultimately show ?case using shP by blast
qed

lemma rounded_output:
  assumes "n_outputs s = Some n"
    and "n_estimators s = int (length (estimators s))"
    and "1 \<le> length (estimators s)"
    and "map (\<lambda>e. run B e (training s) X) (estimators s) = map Inr ys"
    and "\<forall>y\<in>set ys. has_shape (length X) n y"
  shows "\<exists>P. accumulate_rnd rnd B s n X (estimators s) (zeros (length X) n) = Inr P \<and>
           has_shape (length X) n P \<and>
           (\<forall>i<length X. \<forall>j<n.
              P ! i ! j = foldl (\<lambda>a y. rnd (a + rnd (y ! i ! j / real (length ys)))) 0 ys)"
proof -
  have nz: "n_estimators s \<noteq> 0" using assms(2,3) by (cases "estimators s") simp_all
  have len: "length ys = length (estimators s)"
    using assms(4) by (metis length_map)
  from accumulate_rnd_sum [OF nz assms(4) assms(5) has_shape_zeros, of rnd] obtain P where
    acc: "accumulate_rnd rnd B s n X (estimators s) (zeros (length X) n) = Inr P"
    and shP: "has_shape (length X) n P"
    and val: "\<forall>i<length X. \<forall>j<n. P ! i ! j =
       foldl (\<lambda>a y. rnd (a + rnd (y ! i ! j / of_int (n_estimators s))))
         (zeros (length X) n ! i ! j) ys"
    by blast
  have "\<forall>i<length X. \<forall>j<n.
      P ! i ! j = foldl (\<lambda>a y. rnd (a + rnd (y ! i ! j / real (length ys)))) 0 ys"
    using val by (simp add: zeros_nth assms(2) len)
  then show ?thesis using acc shP by blast
qed

lemma fl32_t: "fl32 (13421773 / 134217728) = 13421773 / 134217728"
  using fl32_binade [of "-4" "13421773 / 134217728"] by (simp add: powr_minus_divide rne_def)

lemma fl32_tenth: "fl32 (1 / 10) = 13421773 / 134217728"
  using fl32_binade [of "-4" "1 / 10"] by (simp add: powr_minus_divide rne_def)

lemma fl32_sum1: "fl32 (13421773 / 67108864) = 13421773 / 67108864"
  using fl32_binade [of "-3" "13421773 / 67108864"] by (simp add: powr_minus_divide rne_def)

lemma fl32_sum2: "fl32 (40265319 / 134217728) = 5033165 / 16777216"
  using fl32_binade [of "-2" "40265319 / 134217728"] by (simp add: powr_minus_divide rne_def)

lemma fl32_sum3: "fl32 (53687093 / 134217728) = 13421773 / 33554432"
  using fl32_binade [of "-2" "53687093 / 134217728"] by (simp add: powr_minus_divide rne_def)

lemma fl32_sum4: "fl32 (67108865 / 134217728) = 1 / 2"
  using fl32_binade [of "-1" "67108865 / 134217728"] by (simp add: powr_minus_divide rne_def)

lemma fl32_sum5: "fl32 (80530637 / 134217728) = 5033165 / 8388608"
  using fl32_binade [of "-1" "80530637 / 134217728"] by (simp add: powr_minus_divide rne_def)

lemma fl32_sum6: "fl32 (93952413 / 134217728) = 2936013 / 4194304"
  using fl32_binade [of "-1" "93952413 / 134217728"] by (simp add: powr_minus_divide rne_def)

lemma fl32_sum7: "fl32 (107374189 / 134217728) = 6710887 / 8388608"
  using fl32_binade [of "-1" "107374189 / 134217728"] by (simp add: powr_minus_divide rne_def)

lemma fl32_sum8: "fl32 (120795965 / 134217728) = 1887437 / 2097152"
  using fl32_binade [of "-1" "120795965 / 134217728"] by (simp add: powr_minus_divide rne_def)

lemma fl32_sum9: "fl32 (134217741 / 134217728) = 8388609 / 8388608"
  using fl32_binade [of "0" "134217741 / 134217728"] by (simp add: powr_minus_divide rne_def)

lemmas fl32_sums = fl32_tenth fl32_sum1 fl32_sum2 fl32_sum3 fl32_sum4 fl32_sum5 fl32_sum6 fl32_sum7 fl32_sum8 fl32_sum9

lemma ten_ones_reg_forward_fl32:
  "reg_forward_rnd fl32 reg_backend ten_ones [()] = Inr [[8388609 / 8388608]]"
  by (simp add: reg_forward_rnd_def ten_ones_def const_backend_def tensor_eval
      div_scalar_rnd_def add_tensor_rnd_def fl32_t fl32_sums)

lemma ten_ones_cls__forward_fl32:
  "cls__forward_rnd fl32 cls_backend ten_ones [()] = Inr [[8388609 / 8388608]]"
  by (simp add: cls__forward_rnd_def ten_ones_def const_backend_def tensor_eval
      div_scalar_rnd_def add_tensor_rnd_def fl32_t fl32_sums)

lemma ten_ones_reg_forward:
  "reg_forward reg_backend ten_ones [()] = Inr [[1]]"
  by (simp add: reg_forward_def ten_ones_def const_backend_def tensor_eval)

lemma first_max_spec:
  assumes "length pre = i" and "k < i" and "pre ! k = best"
    and "\<forall>j<i. pre ! j \<le> best" and "\<forall>j<k. pre ! j < best"
  shows "first_max best k i vs < length (pre @ vs) \<and>
         (\<forall>j<length (pre @ vs). (pre @ vs) ! j \<le> (pre @ vs) ! first_max best k i vs) \<and>
         (\<forall>j<first_max best k i vs. (pre @ vs) ! j < (pre @ vs) ! first_max best k i vs)"
  using assms
proof (induction vs arbitrary: pre i k best)
  case Nil
  then show ?case by simp
next
  case (Cons v vs)
  let ?pre = "pre @ [v]"
  have app: "pre @ v # vs = ?pre @ vs" by simp
  show ?case
  proof (cases "best < v")
    case True
    have 1: "length ?pre = Suc i" using Cons.prems(1) by simp
    have 2: "i < Suc i" by simp
    have 3: "?pre ! i = v" using Cons.prems(1) by (auto simp: nth_append)
    have 4: "\<forall>j<Suc i. ?pre ! j \<le> v"
    proof (intro allI impI)
      fix j assume "j < Suc i"
      then consider "j < i" | "j = i" by linarith
      then show "?pre ! j \<le> v"
      proof cases
        case 1
        then have "?pre ! j = pre ! j" using Cons.prems(1) by (simp add: nth_append)
        then show ?thesis using Cons.prems(4) 1 True by fastforce
      next
        case 2
        then show ?thesis using 3 by simp
      qed
    qed
    have 5: "\<forall>j<i. ?pre ! j < v"
    proof (intro allI impI)
      fix j assume j: "j < i"
      then have "?pre ! j = pre ! j" using Cons.prems(1) by (simp add: nth_append)
      then show "?pre ! j < v" using Cons.prems(4) j True by fastforce
    qed
    from Cons.IH [OF 1 2 3 4 5] show ?thesis using True unfolding app by simp
  next
    case False
    have 1: "length ?pre = Suc i" using Cons.prems(1) by simp
    have 2: "k < Suc i" using Cons.prems(2) by simp
    have 3: "?pre ! k = best" using Cons.prems(1,2,3) by (simp add: nth_append)
    have 4: "\<forall>j<Suc i. ?pre ! j \<le> best"
    proof (intro allI impI)
      fix j assume "j < Suc i"
      then consider "j < i" | "j = i" by linarith
      then show "?pre ! j \<le> best"
      proof cases
        case 1
        then have "?pre ! j = pre ! j" using Cons.prems(1) by (simp add: nth_append)
        then show ?thesis using Cons.prems(4) 1 by simp
      next
        case 2
        then have "?pre ! j = v" using Cons.prems(1) by (auto simp: nth_append)
        then show ?thesis using False by simp
      qed
    qed
    have 5: "\<forall>j<k. ?pre ! j < best"
    proof (intro allI impI)
      fix j assume j: "j < k"
      then have "?pre ! j = pre ! j" using Cons.prems(1,2) by (simp add: nth_append)
      then show "?pre ! j < best" using Cons.prems(5) j by simp
    qed
    from Cons.IH [OF 1 2 3 4 5] show ?thesis using False unfolding app by simp
  qed
qed

lemma argmax_row_spec:
  assumes "argmax_row r = Inr k"
  shows "k < length r \<and> (\<forall>j<length r. r ! j \<le> r ! k) \<and> (\<forall>j<k. r ! j < r ! k)"
proof (cases r)
  case Nil
  with assms show ?thesis by (simp add: argmax_row_def)
next
  case (Cons v vs)
  with assms have k: "k = first_max v 0 1 vs" by (simp add: argmax_row_def)
  have "first_max v 0 1 vs < length ([v] @ vs) \<and>
        (\<forall>j<length ([v] @ vs). ([v] @ vs) ! j \<le> ([v] @ vs) ! first_max v 0 1 vs) \<and>
        (\<forall>j<first_max v 0 1 vs. ([v] @ vs) ! j < ([v] @ vs) ! first_max v 0 1 vs)"
    by (rule first_max_spec) simp_all
  then show ?thesis using k Cons by simp
qed

lemma argmax_row_nonempty: "r \<noteq> [] \<Longrightarrow> \<exists>k. argmax_row r = Inr k"
  by (cases r) (simp_all add: argmax_row_def)

lemma argmax_rows_nth:
  "argmax_rows t = Inr ks \<Longrightarrow> i < length t \<Longrightarrow> argmax_row (t ! i) = Inr (ks ! i)"
proof (induction t arbitrary: ks i)
  case Nil
  then show ?case by simp
next
  case (Cons r rs)
  from Cons.prems(1) obtain k ks' where k: "argmax_row r = Inr k"
    and ks': "argmax_rows rs = Inr ks'" and ks: "ks = k # ks'"
    by (auto split: sum.splits)
  show ?case
  proof (cases i)
    case 0
    then show ?thesis using k ks by simp
  next
    case (Suc i')
    then have "i' < length rs" using Cons.prems(2) by simp
    from Cons.IH [OF ks' this] show ?thesis using Suc ks by simp
  qed
qed

lemma argmax_rows_all:
  "\<forall>i<length t. \<exists>k. argmax_row (t ! i) = Inr k \<Longrightarrow> \<exists>ks. argmax_rows t = Inr ks"
proof (induction t)
  case Nil
  then show ?case by simp
next
  case (Cons r rs)
  from Cons.prems have "\<exists>k. argmax_row ((r # rs) ! 0) = Inr k" by blast
  then obtain k where k: "argmax_row r = Inr k" by auto
  have "\<forall>i<length rs. \<exists>k. argmax_row (rs ! i) = Inr k"
  proof (intro allI impI)
    fix i assume "i < length rs"
    then have "Suc i < length (r # rs)" by simp
    with Cons.prems have "\<exists>k. argmax_row ((r # rs) ! Suc i) = Inr k" by blast
    then show "\<exists>k. argmax_row (rs ! i) = Inr k" by simp
  qed
  from Cons.IH [OF this] obtain ks where "argmax_rows rs = Inr ks" by blast
  with k show ?case by simp
qed

lemma foldl_rnd_nonneg:
  assumes "mono rnd" and "rnd 0 = (0::real)" and "0 \<le> a" and "\<forall>e\<in>set es. 0 \<le> e"
  shows "0 \<le> foldl (\<lambda>a e. rnd (a + e)) a es"
  using assms(3,4)
proof (induction es arbitrary: a)
  case Nil
  then show ?case by simp
next
  case (Cons e es)
  have "0 \<le> a + e" using Cons.prems by simp
  then have "rnd 0 \<le> rnd (a + e)" using assms(1) by (simp add: monoD)
  then have "0 \<le> rnd (a + e)" using assms(2) by simp
  then show ?case using Cons.IH [of "rnd (a + e)"] Cons.prems(2) by simp
qed

lemma softmax_row_rnd_mono:
  assumes "mono rnd" and "rnd 0 = (0::real)" and "i < length r" and "j < length r"
    and "r ! i \<le> r ! j"
  shows "softmax_row_rnd rnd r ! i \<le> softmax_row_rnd rnd r ! j"
proof -
  have ne: "r \<noteq> []" using assms(3) by auto
  define m where "m = Max (set r)"
  define es where "es = map (\<lambda>v. rnd (exp (rnd (v - m)))) r"
  define S where "S = foldl (\<lambda>a e. rnd (a + e)) 0 es"
  have nn: "\<forall>e\<in>set es. 0 \<le> e"
  proof
    fix e assume "e \<in> set es"
    then obtain v where "e = rnd (exp (rnd (v - m)))" by (auto simp: es_def)
    moreover have "rnd 0 \<le> rnd (exp (rnd (v - m)))"
      using assms(1) by (simp add: monoD)
    ultimately show "0 \<le> e" using assms(2) by simp
  qed
  have S: "0 \<le> S" unfolding S_def using assms(1,2) nn by (intro foldl_rnd_nonneg) simp_all
  have sm: "softmax_row_rnd rnd r = map (\<lambda>e. rnd (e / S)) es"
    using ne by (simp add: softmax_row_rnd_def Let_def m_def es_def S_def)
  have "rnd (r ! i - m) \<le> rnd (r ! j - m)" using assms(1,5) by (simp add: monoD)
  then have "rnd (exp (rnd (r ! i - m))) \<le> rnd (exp (rnd (r ! j - m)))"
    using assms(1) by (simp add: monoD)
  then have "es ! i \<le> es ! j" using assms(3,4) by (simp add: es_def)
  then have "es ! i / S \<le> es ! j / S" using S by (rule divide_right_mono)
  then have "rnd (es ! i / S) \<le> rnd (es ! j / S)" using assms(1) by (simp add: monoD)
  then show ?thesis using assms(3,4) by (simp add: sm es_def)
qed

lemma length_softmax_row_rnd: "length (softmax_row_rnd rnd r) = length r"
  by (simp add: softmax_row_rnd_def Let_def)

lemma argmax_after_rounded_softmax:
  assumes "mono rnd" and "rnd 0 = (0::real)" and "argmax_row r = Inr k"
  shows "\<exists>k'. argmax_row (softmax_row_rnd rnd r) = Inr k' \<and> k' \<le> k \<and>
           softmax_row_rnd rnd r ! k' = softmax_row_rnd rnd r ! k"
proof -
  let ?q = "softmax_row_rnd rnd r"
  from argmax_row_spec [OF assms(3)] have k: "k < length r"
    and kmax: "\<forall>j<length r. r ! j \<le> r ! k" by simp_all
  have len: "length ?q = length r" by (rule length_softmax_row_rnd)
  then have "?q \<noteq> []" using k by auto
  then obtain k' where k': "argmax_row ?q = Inr k'" using argmax_row_nonempty by blast
  from argmax_row_spec [OF k'] have k'len: "k' < length ?q"
    and k'max: "\<forall>j<length ?q. ?q ! j \<le> ?q ! k'"
    and k'first: "\<forall>j<k'. ?q ! j < ?q ! k'" by simp_all
  have "r ! k' \<le> r ! k" using kmax k'len len by simp
  then have "?q ! k' \<le> ?q ! k"
    using softmax_row_rnd_mono [OF assms(1,2), of k' r k] k'len len k by simp
  moreover have "?q ! k \<le> ?q ! k'" using k'max k len by simp
  ultimately have eq: "?q ! k' = ?q ! k" by simp
  have "\<not> k < k'" using k'first eq by fastforce
  then have "k' \<le> k" by simp
  with k' eq show ?thesis by blast
qed

lemma rne_just_below: "of_int n - 1 / 2 < z \<Longrightarrow> z < of_int n \<Longrightarrow> rne z = n"
proof -
  assume a: "of_int n - 1 / 2 < z" and b: "z < of_int n"
  have "\<lfloor>z\<rfloor> = n - 1" using a b by (simp add: floor_eq_iff)
  then show ?thesis using a by (simp add: rne_def Let_def)
qed

lemma fl32_just_below_one:
  assumes "1 - 1 / 33554432 < y" and "y < 1"
  shows "fl32 y = 1"
proof -
  have y: "0 < y" and ay: "\<bar>y\<bar> = y" using assms(1) by linarith+
  have u: "(2::real) powr (real_of_int (- 1) - 23) = 1 / 16777216"
    by (simp add: powr_minus_divide)
  have b1: "(2::real) powr real_of_int (- 1) = 1 / 2"
    by (simp add: powr_minus_divide)
  have b2: "(2::real) powr (real_of_int (- 1) + 1) = 1"
    by simp
  have l: "2 powr real_of_int (- 1) \<le> \<bar>y\<bar>" unfolding b1 ay using assms(1) by linarith
  have h: "\<bar>y\<bar> < 2 powr (real_of_int (- 1) + 1)" unfolding b2 ay using assms(2) .
  have z: "rne (y * 16777216) = 16777216"
  proof (rule rne_just_below)
    show "real_of_int 16777216 - 1 / 2 < y * 16777216" using assms(1) by simp
    show "y * 16777216 < real_of_int 16777216" using assms(2) by simp
  qed
  have "fl32 y = sgn y * (of_int (rne (\<bar>y\<bar> / (1 / 16777216))) * (1 / 16777216))"
    using fl32_binade [OF l h] unfolding u by simp
  also have "\<dots> = 1" using y by (simp add: ay z)
  finally show ?thesis .
qed

lemma fl32_exp_tiny: "fl32 (exp (- (1 / 1099511627776))) = 1"
proof (rule fl32_just_below_one)
  have "1 - 1 / 1099511627776 \<le> exp (- (1 / 1099511627776 :: real))"
    by (rule exp_minus_ge)
  then show "1 - 1 / 33554432 < exp (- (1 / 1099511627776 :: real))" by linarith
  show "exp (- (1 / 1099511627776 :: real)) < 1" by simp
qed

lemma fl32_tiny: "fl32 (1 / 1099511627776) = 1 / 1099511627776"
  using fl32_binade [of "-40" "1 / 1099511627776"] by (simp add: powr_minus_divide rne_def)

lemma fl32_two: "fl32 2 = 2"
  using fl32_binade [of 1 2] by (simp add: powr_minus_divide rne_def)

lemma fl32_half: "fl32 (1 / 2) = 1 / 2"
  using fl32_binade [of "-1" "1 / 2"] by (simp add: powr_minus_divide rne_def)

lemma near_tie__forward_fl32:
  "cls__forward_rnd fl32 cls_backend near_tie [()] = Inr [[0, 1 / 2 ^ 40]]"
  by (simp add: cls__forward_rnd_def near_tie_def const_backend_def tensor_eval
      div_scalar_rnd_def add_tensor_rnd_def fl32_tiny)

lemma near_tie_softmax_fl32:
  "softmax_rnd fl32 [[0, 1 / 2 ^ 40]] = [[1 / 2, 1 / 2]]"
  by (simp add: softmax_rnd_def softmax_row_rnd_def Let_def fl32_minus fl32_tiny
      fl32_exp_tiny fl32_two fl32_half)

lemma near_tie_forward_fl32:
  "cls_forward_rnd fl32 cls_backend near_tie [()] = Inr [[1 / 2, 1 / 2]]"
  by (simp only: cls_forward_rnd_def near_tie__forward_fl32 near_tie_softmax_fl32 sum.case)

lemmas fit_eval =
  cls_fit_def reg_fit_def fresh_pair_def init_ensemble_def const_backend_def
  validate_parameters_def half_right_loader_def uneven_loader_def numeral_2_eq_2

lemma first_fit:
  "cls_fit cls_backend fresh_pair half_right_loader (1 / 1000) (5 / 10000) 1 ''Adam'' 100 =
     (once_fitted, [ClsLine 0 0 0 1 2], None)"
  by (simp add: once_fitted_def fit_eval cls__forward_def tensor_eval apply_step_def
      argmax_row_def eq_sum_def)

lemma second_fit:
  "cls_fit cls_backend once_fitted half_right_loader (1 / 1000) (5 / 10000) 1 ''Adam'' 100 =
     (twice_fitted, [ClsLine 0 0 0 1 2], None)"
  by (simp add: once_fitted_def twice_fitted_def fit_eval cls__forward_def tensor_eval
      apply_step_def argmax_row_def eq_sum_def)

lemma once_fitted__forward: "cls__forward cls_backend once_fitted [()] = Inr [[1, 0]]"
  by (simp add: cls__forward_def once_fitted_def const_backend_def tensor_eval)

lemma twice_fitted__forward: "cls__forward cls_backend twice_fitted [()] = Inr [[2, 0]]"
  by (simp add: cls__forward_def twice_fitted_def const_backend_def tensor_eval)

section \<open>Properties of the module\<close>

subsection \<open>Validation of the hyperparameters\<close>

text \<open>
  C1. The specification says that \<open>fit\<close> with a non-positive \<open>lr\<close>, a negative
  \<open>weight_decay\<close>, a non-positive \<open>epochs\<close> or a non-positive \<open>log_interval\<close>
  raises a validation error before any estimator is constructed, leaving the collection
  of estimators and \<open>n_outputs\<close> unchanged. Both \<open>fit\<close> methods call
  \<open>_validate_parameters\<close> only after they have appended the new estimators, assigned
  \<open>n_outputs\<close>, built the optimizer from \<open>lr\<close> and \<open>weight_decay\<close> and switched to
  train mode. With \<open>epochs = 0\<close> on a fresh ensemble of two estimators the call ends in
  the validation error and leaves two estimators and an assigned \<open>n_outputs\<close> behind.
\<close>

theorem fit_constructs_before_validating:
  "cls_fit cls_backend fresh_pair half_right_loader (1 / 1000) (5 / 10000) 0 ''Adam'' 100 =
     (\<lparr>n_estimators = 2, device = ''cpu'', estimators = [[1, 0], [1, 0]],
       n_outputs = Some 2, training = True, factory_calls = 2\<rparr>,
      [], Some ValidationError) \<and>
   reg_fit reg_backend fresh_pair uneven_loader (1 / 1000) (5 / 10000) 0 ''Adam'' 100 =
     (\<lparr>n_estimators = 2, device = ''cpu'', estimators = [[1, 0], [1, 0]],
       n_outputs = Some 2, training = True, factory_calls = 2\<rparr>,
      [], Some ValidationError) \<and>
   estimators fresh_pair = [] \<and> n_outputs fresh_pair = None"
  by (simp add: fit_eval)

subsection \<open>Classification accuracy\<close>

text \<open>
  C2, as amended. Whenever \<open>FusionClassifier.predict\<close> returns an accuracy for a loader
  whose batches have one target per example, the accuracy is 100 times the number of
  examples whose predicted arg-max class equals the target, divided by
  \<open>len(test_loader.dataset)\<close>, for every such loader. If the batches hold exactly
  \<open>len(test_loader.dataset)\<close> examples in total, the accuracy lies in [0, 100] and
  equals 100 exactly when every prediction in every batch matches its target.
\<close>

theorem accuracy_of_covering_loader:
  assumes "snd (cls_predict B s L) = Inr a"
    and "list_all (\<lambda>b. length (snd b) = length (fst b)) (batches L)"
  shows "a = 100 * real (sum_list (map (batch_correct B (s\<lparr>training := False\<rparr>)) (batches L)))
               / real (dataset_len L) \<and>
         (examples (batches L) = dataset_len L \<longrightarrow>
            0 \<le> a \<and> a \<le> 100 \<and>
            (a = 100) = list_all (all_match B (s\<lparr>training := False\<rparr>)) (batches L))"
proof -
  let ?s = "s\<lparr>training := False\<rparr>"
  let ?m = "sum_list (map (batch_correct B ?s) (batches L))"
  from assms(1) obtain k where k: "cls_count_correct B ?s (batches L) 0 = Inr k"
    and nz: "dataset_len L \<noteq> 0" and a: "a = 100 * real k / real (dataset_len L)"
    by (auto simp: cls_predict_def Let_def split: sum.splits if_splits)
  from cls_count_correct_sound [OF k assms(2)] have km: "k = ?m"
    and le: "?m \<le> examples (batches L)"
    and full: "(?m = examples (batches L)) = list_all (all_match B ?s) (batches L)"
    by simp_all
  have pos: "0 < real (dataset_len L)" using nz by simp
  have 1: "a = 100 * real ?m / real (dataset_len L)" using a km by simp
  have 2: "examples (batches L) = dataset_len L \<longrightarrow>
      0 \<le> a \<and> a \<le> 100 \<and> (a = 100) = list_all (all_match B ?s) (batches L)"
  proof
    assume c: "examples (batches L) = dataset_len L"
    have "0 \<le> a" unfolding 1 by simp
    moreover have "a \<le> 100" unfolding 1 using le c pos by (simp add: pos_divide_le_eq)
    moreover have "(a = 100) = (?m = dataset_len L)"
      unfolding 1 using pos by (simp add: field_simps)
    ultimately show "0 \<le> a \<and> a \<le> 100 \<and> (a = 100) = list_all (all_match B ?s) (batches L)"
      using full c by simp
  qed
  from 1 2 show ?thesis by (rule conjI)
qed

text \<open>
  Three instances: of the two examples of \<open>half_right_loader\<close> the first is predicted
  right and the accuracy is 50; both examples of \<open>all_right_loader\<close> are predicted
  right and the accuracy is 100; \<open>drop_last_loader\<close> does not yield its third example,
  and the accuracy is the two matches over the three examples of the dataset.
\<close>

theorem accuracy_of_covering_loader_witness:
  "snd (cls_predict cls_backend three_classifiers half_right_loader) = Inr 50 \<and>
   \<not> list_all (all_match cls_backend (three_classifiers\<lparr>training := False\<rparr>))
        (batches half_right_loader) \<and>
   snd (cls_predict cls_backend three_classifiers all_right_loader) = Inr 100 \<and>
   list_all (all_match cls_backend (three_classifiers\<lparr>training := False\<rparr>))
     (batches all_right_loader) \<and>
   200 / 3 = 100 * real (sum_list (map (batch_correct cls_backend
       (three_classifiers\<lparr>training := False\<rparr>)) (batches drop_last_loader)))
     / real (dataset_len drop_last_loader)"
proof -
  have r: "snd (cls_predict cls_backend three_classifiers half_right_loader) = Inr 50"
    by (simp add: cls_predict_def half_right_loader_def cls_forward_def
        three_classifiers__forward2 argmax_rows_softmax argmax_row_def eq_sum_def)
  have w: "list_all (\<lambda>b. length (snd b) = length (fst b)) (batches half_right_loader)"
    by (simp add: half_right_loader_def)
  have c: "examples (batches half_right_loader) = dataset_len half_right_loader"
    by (simp add: half_right_loader_def examples_def)
  from accuracy_of_covering_loader [OF r w] c
  have 1: "\<not> list_all (all_match cls_backend (three_classifiers\<lparr>training := False\<rparr>))
           (batches half_right_loader)"
    by (elim conjE) simp
  have r': "snd (cls_predict cls_backend three_classifiers all_right_loader) = Inr 100"
    by (simp add: cls_predict_def all_right_loader_def cls_forward_def
        three_classifiers__forward2 argmax_rows_softmax argmax_row_def eq_sum_def)
  have w': "list_all (\<lambda>b. length (snd b) = length (fst b)) (batches all_right_loader)"
    by (simp add: all_right_loader_def)
  have c': "examples (batches all_right_loader) = dataset_len all_right_loader"
    by (simp add: all_right_loader_def examples_def)
  from accuracy_of_covering_loader [OF r' w'] c'
  have 2: "list_all (all_match cls_backend (three_classifiers\<lparr>training := False\<rparr>))
           (batches all_right_loader)"
    by (elim conjE) simp
  have r'': "snd (cls_predict cls_backend three_classifiers drop_last_loader) = Inr (200 / 3)"
    by (simp add: cls_predict_def drop_last_loader_def cls_forward_def
        three_classifiers__forward2 argmax_rows_softmax argmax_row_def eq_sum_def)
  have w'': "list_all (\<lambda>b. length (snd b) = length (fst b)) (batches drop_last_loader)"
    by (simp add: drop_last_loader_def)
  from accuracy_of_covering_loader [OF r'' w'']
  have 3: "200 / 3 = 100 * real (sum_list (map (batch_correct cls_backend
       (three_classifiers\<lparr>training := False\<rparr>)) (batches drop_last_loader)))
     / real (dataset_len drop_last_loader)"
    by (rule conjunct1)
  from r 1 r' 2 3 show ?thesis by (intro conjI)
qed

text \<open>
  C2 as it is written claims the range and the characterisation of 100 for every test
  loader. The divisor is the length of the dataset, not the number of examples seen: for
  a loader that drops the last incomplete batch every prediction of every batch matches,
  and the accuracy is 200/3.
\<close>

theorem accuracy_below_100_counterexample:
  "all_match cls_backend (three_classifiers\<lparr>training := False\<rparr>) ([(), ()], [0, 0]) \<and>
   snd (cls_predict cls_backend three_classifiers drop_last_loader) = Inr (200 / 3) \<and>
   snd (cls_predict cls_backend three_classifiers drop_last_loader) \<noteq> Inr 100"
  by (simp add: all_match_def three_classifiers_pred2 cls_predict_def drop_last_loader_def
      cls_forward_def three_classifiers__forward2 argmax_rows_softmax argmax_row_def
      eq_sum_def)

subsection \<open>Regression error\<close>



subsection \<open>The averaged forward pass\<close>

text \<open>
  C4, as amended. For an ensemble that holds N \<ge> 1 estimators, N being its
  \<open>n_estimators\<close>, and an input batch on which every estimator returns a tensor of
  shape (batch size, \<open>n_outputs\<close>), \<open>FusionClassifier._forward\<close> and
  \<open>FusionRegressor.forward\<close> return, in every position, the sum from left to right of
  the quotients of the estimators' outputs by N, every quotient and every partial sum
  rounded to float32. Over the reals, that is without the rounding, this is the sum of
  the outputs divided by N; in particular, when every estimator returns a constant row
  \<open>v\<close> for every example, every output row is the sum of these rows divided by N,
  for every batch size.
\<close>

theorem averaged_forward:
  assumes "n_outputs s = Some n"
    and "n_estimators s = int (length (estimators s))"
    and "1 \<le> length (estimators s)"
    and "map (\<lambda>e. run B e (training s) X) (estimators s) = map Inr ys"
    and "\<forall>y\<in>set ys. has_shape (length X) n y"
  shows "(\<exists>P. cls__forward_rnd rnd B s X = Inr P \<and> reg_forward_rnd rnd B s X = Inr P \<and>
            has_shape (length X) n P \<and>
            (\<forall>i<length X. \<forall>j<n.
               P ! i ! j =
                 foldl (\<lambda>a y. rnd (a + rnd (y ! i ! j / real (length ys)))) 0 ys)) \<and>
         (\<exists>P. cls__forward B s X = Inr P \<and> reg_forward B s X = Inr P \<and>
            has_shape (length X) n P \<and>
            (\<forall>i<length X. \<forall>j<n. P ! i ! j = (\<Sum>y\<leftarrow>ys. y ! i ! j) / real (length ys)) \<and>
            (\<forall>vs. ys = map (replicate (length X)) vs \<longrightarrow>
               (\<forall>i<length X.
                  P ! i = map (\<lambda>j. (\<Sum>v\<leftarrow>vs. v ! j) / real (length vs)) [0..<n])))"
proof -
  from rounded_output [OF assms, of rnd] obtain R where
    accR: "accumulate_rnd rnd B s n X (estimators s) (zeros (length X) n) = Inr R"
    and shR: "has_shape (length X) n R"
    and valR: "\<forall>i<length X. \<forall>j<n.
       R ! i ! j = foldl (\<lambda>a y. rnd (a + rnd (y ! i ! j / real (length ys)))) 0 ys"
    by blast
  have "cls__forward_rnd rnd B s X = Inr R" and "reg_forward_rnd rnd B s X = Inr R"
    using accR assms(1) by (simp_all add: cls__forward_rnd_def reg_forward_rnd_def)
  with shR valR have rounded:
    "\<exists>P. cls__forward_rnd rnd B s X = Inr P \<and> reg_forward_rnd rnd B s X = Inr P \<and>
       has_shape (length X) n P \<and>
       (\<forall>i<length X. \<forall>j<n.
          P ! i ! j = foldl (\<lambda>a y. rnd (a + rnd (y ! i ! j / real (length ys)))) 0 ys)"
    by blast
  from averaged_output [OF assms] obtain P where
    acc: "accumulate B s n X (estimators s) (zeros (length X) n) = Inr P"
    and shP: "has_shape (length X) n P"
    and val: "\<forall>i<length X. \<forall>j<n. P ! i ! j = (\<Sum>y\<leftarrow>ys. y ! i ! j) / real (length ys)"
    by blast
  have c: "cls__forward B s X = Inr P" and r: "reg_forward B s X = Inr P"
    using acc assms(1) by (simp_all add: cls__forward_def reg_forward_def)
  have "\<forall>vs. ys = map (replicate (length X)) vs \<longrightarrow>
      (\<forall>i<length X. P ! i = map (\<lambda>j. (\<Sum>v\<leftarrow>vs. v ! j) / real (length vs)) [0..<n])"
  proof (intro allI impI)
    fix vs i assume ys: "ys = map (replicate (length X)) vs" and i: "i < length X"
    have len: "length (P ! i) = n" using shP i by (rule has_shape_nth)
    show "P ! i = map (\<lambda>j. (\<Sum>v\<leftarrow>vs. v ! j) / real (length vs)) [0..<n]"
    proof (rule nth_equalityI)
      show "length (P ! i) = length (map (\<lambda>j. (\<Sum>v\<leftarrow>vs. v ! j) / real (length vs)) [0..<n])"
        using len by simp
    next
      fix j assume "j < length (P ! i)"
      then have j: "j < n" using len by simp
      have "(\<Sum>y\<leftarrow>ys. y ! i ! j) = (\<Sum>v\<leftarrow>vs. v ! j)"
        using ys i by (simp add: comp_def)
      then show "P ! i ! j = map (\<lambda>j. (\<Sum>v\<leftarrow>vs. v ! j) / real (length vs)) [0..<n] ! j"
        using val i j ys by simp
    qed
  qed
  with c r shP val have exact:
    "\<exists>P. cls__forward B s X = Inr P \<and> reg_forward B s X = Inr P \<and>
       has_shape (length X) n P \<and>
       (\<forall>i<length X. \<forall>j<n. P ! i ! j = (\<Sum>y\<leftarrow>ys. y ! i ! j) / real (length ys)) \<and>
       (\<forall>vs. ys = map (replicate (length X)) vs \<longrightarrow>
          (\<forall>i<length X. P ! i = map (\<lambda>j. (\<Sum>v\<leftarrow>vs. v ! j) / real (length vs)) [0..<n]))"
    by blast
  from rounded exact show ?thesis by (rule conjI)
qed

text \<open>
  An instance with \<open>fl32\<close> as rounding: ten estimators returning \<open>[1]\<close> give
  \<open>1 + 2 ^ (-23)\<close> in float32 and 1 over the reals.
\<close>

theorem averaged_forward_witness:
  "cls__forward_rnd fl32 reg_backend ten_ones [()] = Inr [[1 + 1 / 2 ^ 23]] \<and>
   reg_forward_rnd fl32 reg_backend ten_ones [()] = Inr [[1 + 1 / 2 ^ 23]] \<and>
   cls__forward reg_backend ten_ones [()] = Inr [[1]] \<and>
   reg_forward reg_backend ten_ones [()] = Inr [[1]]"
proof -
  let ?ys = "[[[1]], [[1]], [[1]], [[1]], [[1]], [[1]], [[1]], [[1]], [[1]], [[1::real]]]"
  have h1: "n_outputs ten_ones = Some 1"
    and h2: "n_estimators ten_ones = int (length (estimators ten_ones))"
    and h3: "1 \<le> length (estimators ten_ones)"
    and h4: "map (\<lambda>e. run reg_backend e (training ten_ones) [()])
               (estimators ten_ones) = map Inr ?ys"
    and h5: "\<forall>y\<in>set ?ys. has_shape (length [()]) 1 y"
    by (simp_all add: ten_ones_def const_backend_def has_shape_def)
  from averaged_forward [OF h1 h2 h3 h4 h5, of fl32] obtain R P where
    cR: "cls__forward_rnd fl32 reg_backend ten_ones [()] = Inr R"
    and rR: "reg_forward_rnd fl32 reg_backend ten_ones [()] = Inr R"
    and c: "cls__forward reg_backend ten_ones [()] = Inr P"
    and r: "reg_forward reg_backend ten_ones [()] = Inr P"
    by (elim exE conjE)
  from rR have "R = [[1 + 1 / 2 ^ 23]]" by (simp add: ten_ones_reg_forward_fl32)
  moreover from r have "P = [[1]]" by (simp add: ten_ones_reg_forward)
  ultimately show ?thesis using cR rR c r by simp
qed

text \<open>
  C4 as it is written claims the exact mean of the code's result. In float32 the ten
  quotients \<open>1 / 10\<close> are each rounded up, and their rounded sum is
  \<open>1 + 2 ^ (-23)\<close>, not \<open>10 / 10\<close>.
\<close>

theorem averaged_forward_float32_counterexample:
  "cls__forward_rnd fl32 cls_backend ten_ones [()] = Inr [[1 + 1 / 2 ^ 23]] \<and>
   reg_forward_rnd fl32 reg_backend ten_ones [()] = Inr [[1 + 1 / 2 ^ 23]] \<and>
   reg_forward_rnd fl32 reg_backend ten_ones [()] \<noteq> Inr [[10 / 10]]"
  by (simp add: ten_ones_reg_forward_fl32 ten_ones_cls__forward_fl32)

subsection \<open>The collection of estimators\<close>

text \<open>
  C5. The specification says that the collection of estimators is empty until \<open>fit\<close>,
  that each call of \<open>fit\<close> invokes the factory exactly \<open>n_estimators\<close> times, appending
  the fresh instances in order, and that the collection has length \<open>n_estimators\<close> after
  \<open>fit\<close> for the module's lifetime. The first \<open>fit\<close> of a fresh ensemble does this.
  \<open>fit\<close> neither empties the collection nor refuses a second call: a second \<open>fit\<close>
  with \<open>n_estimators = 2\<close> leaves four estimators. The forward pass then still divides
  by \<open>n_estimators\<close> while it adds the outputs of all four, and returns \<open>[2, 0]\<close>
  where it returned the average \<open>[1, 0]\<close> after the first \<open>fit\<close>.
\<close>

theorem refit_appends_again:
  "cls_fit cls_backend fresh_pair half_right_loader (1 / 1000) (5 / 10000) 1 ''Adam'' 100 =
     (once_fitted, [ClsLine 0 0 0 1 2], None) \<and>
   cls_fit cls_backend once_fitted half_right_loader (1 / 1000) (5 / 10000) 1 ''Adam'' 100 =
     (twice_fitted, [ClsLine 0 0 0 1 2], None) \<and>
   n_estimators twice_fitted = 2 \<and>
   length (estimators once_fitted) = 2 \<and>
   length (estimators twice_fitted) = 4 \<and>
   cls__forward cls_backend once_fitted [()] = Inr [[1, 0]] \<and>
   cls__forward cls_backend twice_fitted [()] = Inr [[2, 0]]"
  by (simp only: first_fit second_fit once_fitted__forward twice_fitted__forward simp_thms)
     (simp add: once_fitted_def twice_fitted_def)

subsection \<open>Softmax output\<close>

text \<open>
  C6. For a classifier with at least one class, every row of the tensor returned by
  \<open>FusionClassifier.forward\<close> is a probability distribution over the reals: its
  entries are not negative and sum to 1.
\<close>

theorem forward_rows_are_distributions:
  assumes "cls_forward B s X = Inr P" and "n_outputs s = Some n" and "0 < n"
  shows "has_shape (length X) n P \<and> (\<forall>r\<in>set P. (\<forall>v\<in>set r. 0 \<le> v) \<and> sum_list r = 1)"
proof -
  from assms(1) obtain Q where Q: "cls__forward B s X = Inr Q" and P: "P = softmax Q"
    using cls_forward_Inr by blast
  have sh: "has_shape (length X) n Q" using Q assms(2) by (rule cls__forward_shape)
  have "has_shape (length X) n P"
    using sh by (simp add: P softmax_def has_shape_def list_all_iff softmax_row_def)
  moreover have "\<forall>r\<in>set P. (\<forall>v\<in>set r. 0 \<le> v) \<and> sum_list r = 1"
  proof
    fix r assume "r \<in> set P"
    then obtain q where q: "q \<in> set Q" and r: "r = softmax_row q"
      by (auto simp: P softmax_def)
    have "length q = n" using sh q by (simp add: has_shape_def list_all_iff)
    then have "q \<noteq> []" using assms(3) by auto
    then have "sum_list r = 1" unfolding r by (rule softmax_row_sum)
    moreover have "\<forall>v\<in>set r. 0 \<le> v"
      unfolding r using softmax_row_pos by (auto intro: less_imp_le)
    ultimately show "(\<forall>v\<in>set r. 0 \<le> v) \<and> sum_list r = 1" by simp
  qed
  ultimately show ?thesis by simp
qed

text \<open>An instance: the three classifiers on a batch of one example.\<close>

theorem forward_rows_are_distributions_witness:
  "cls_forward cls_backend (three_classifiers\<lparr>training := False\<rparr>) [()]
     = Inr [softmax_row [1, 0]] \<and>
   sum_list (softmax_row [1, 0]) = 1 \<and>
   0 \<le> softmax_row [1, 0] ! 0 \<and> 0 \<le> softmax_row [1, 0] ! 1"
proof -
  have h1: "cls_forward cls_backend (three_classifiers\<lparr>training := False\<rparr>) [()]
              = Inr [softmax_row [1, 0]]"
    by (simp add: cls_forward_def three_classifiers__forward1 softmax_def)
  have h2: "n_outputs (three_classifiers\<lparr>training := False\<rparr>) = Some 2"
    by (simp add: three_classifiers_def)
  have h3: "0 < (2::nat)" by simp
  from forward_rows_are_distributions [OF h1 h2 h3]
  have all: "\<forall>r\<in>set [softmax_row [1, 0]]. (\<forall>v\<in>set r. 0 \<le> v) \<and> sum_list r = 1"
    by (rule conjunct2)
  then have s: "sum_list (softmax_row [1, 0]) = 1"
    and p: "\<forall>v\<in>set (softmax_row [1, 0]). 0 \<le> v"
    by simp_all
  have "length (softmax_row [1, 0]) = 2" by (simp add: softmax_row_def)
  then have "softmax_row [1, 0] ! 0 \<in> set (softmax_row [1, 0])"
    and "softmax_row [1, 0] ! 1 \<in> set (softmax_row [1, 0])"
    by (simp_all add: nth_mem)
  with p have "0 \<le> softmax_row [1, 0] ! 0" and "0 \<le> softmax_row [1, 0] ! 1"
    by blast+
  with h1 s show ?thesis by (intro conjI)
qed

subsection \<open>Arg-max before and after softmax\<close>

text \<open>
  C8, as amended. Over the reals, for every input on which \<open>FusionClassifier._forward\<close>
  returns a tensor, \<open>FusionClassifier.forward\<close> returns its softmax and the per-row
  arg-max of the two is the same, so that the number of correct predictions that
  \<open>fit\<close> logs (from the output before softmax) and the one that \<open>predict\<close> counts
  (after softmax) agree for every target. The arg-max of a row is the first index of a
  maximal entry. With a rounding that is monotone and keeps 0, as that of float32, the
  class that has the arg-max after softmax has an index not larger than, and the same
  probability as, the class that has it before: the two differ only where rounding makes
  probabilities tie.
\<close>

theorem argmax_unchanged_by_softmax:
  "(cls__forward B s X = Inr Q \<longrightarrow>
      cls_forward B s X = Inr (softmax Q) \<and>
      argmax_rows (softmax Q) = argmax_rows Q \<and>
      (case argmax_rows (softmax Q) of Inl e \<Rightarrow> Inl e | Inr pred \<Rightarrow> eq_sum pred target) =
      (case argmax_rows Q of Inl e \<Rightarrow> Inl e | Inr pred \<Rightarrow> eq_sum pred target)) \<and>
   (argmax_rows Q = Inr ks \<longrightarrow>
      length ks = length Q \<and>
      (\<forall>i<length Q. ks ! i < length (Q ! i) \<and>
         (\<forall>j<length (Q ! i). Q ! i ! j \<le> Q ! i ! (ks ! i)) \<and>
         (\<forall>j<ks ! i. Q ! i ! j < Q ! i ! (ks ! i)))) \<and>
   (mono rnd \<and> rnd 0 = 0 \<and> cls__forward_rnd rnd B' s' X' = Inr Q' \<and>
    argmax_rows Q' = Inr ks' \<longrightarrow>
      cls_forward_rnd rnd B' s' X' = Inr (softmax_rnd rnd Q') \<and>
      (\<exists>ks''. argmax_rows (softmax_rnd rnd Q') = Inr ks'' \<and> length ks'' = length ks' \<and>
         (\<forall>i<length ks'. ks'' ! i \<le> ks' ! i \<and>
            softmax_rnd rnd Q' ! i ! (ks'' ! i) = softmax_rnd rnd Q' ! i ! (ks' ! i))))"
proof (intro conjI impI)
  assume "cls__forward B s X = Inr Q"
  then show "cls_forward B s X = Inr (softmax Q)" by (simp add: cls_forward_def)
next
  show "argmax_rows (softmax Q) = argmax_rows Q" by (rule argmax_rows_softmax)
next
  show "(case argmax_rows (softmax Q) of Inl e \<Rightarrow> Inl e | Inr pred \<Rightarrow> eq_sum pred target) =
        (case argmax_rows Q of Inl e \<Rightarrow> Inl e | Inr pred \<Rightarrow> eq_sum pred target)"
    by (simp add: argmax_rows_softmax)
next
  assume "argmax_rows Q = Inr ks"
  then show "length ks = length Q" by (rule argmax_rows_length)
next
  assume a: "argmax_rows Q = Inr ks"
  show "\<forall>i<length Q. ks ! i < length (Q ! i) \<and>
         (\<forall>j<length (Q ! i). Q ! i ! j \<le> Q ! i ! (ks ! i)) \<and>
         (\<forall>j<ks ! i. Q ! i ! j < Q ! i ! (ks ! i))"
  proof (intro allI impI)
    fix i assume "i < length Q"
    with a have "argmax_row (Q ! i) = Inr (ks ! i)" by (rule argmax_rows_nth)
    then show "ks ! i < length (Q ! i) \<and>
         (\<forall>j<length (Q ! i). Q ! i ! j \<le> Q ! i ! (ks ! i)) \<and>
         (\<forall>j<ks ! i. Q ! i ! j < Q ! i ! (ks ! i))"
      by (rule argmax_row_spec)
  qed
next
  assume "mono rnd \<and> rnd 0 = 0 \<and> cls__forward_rnd rnd B' s' X' = Inr Q' \<and>
    argmax_rows Q' = Inr ks'"
  then show "cls_forward_rnd rnd B' s' X' = Inr (softmax_rnd rnd Q')"
    by (simp add: cls_forward_rnd_def)
next
  assume h: "mono rnd \<and> rnd 0 = 0 \<and> cls__forward_rnd rnd B' s' X' = Inr Q' \<and>
    argmax_rows Q' = Inr ks'"
  then have m: "mono rnd" and z: "rnd 0 = 0" and a: "argmax_rows Q' = Inr ks'" by simp_all
  let ?P = "softmax_rnd rnd Q'"
  have len: "length ks' = length Q'" using a by (rule argmax_rows_length)
  have lenP: "length ?P = length Q'" by (simp add: softmax_rnd_def)
  have each: "\<forall>i<length Q'. \<exists>k'. argmax_row (?P ! i) = Inr k' \<and> k' \<le> ks' ! i \<and>
      ?P ! i ! k' = ?P ! i ! (ks' ! i)"
  proof (intro allI impI)
    fix i assume i: "i < length Q'"
    with a have "argmax_row (Q' ! i) = Inr (ks' ! i)" by (rule argmax_rows_nth)
    from argmax_after_rounded_softmax [OF m z this]
    show "\<exists>k'. argmax_row (?P ! i) = Inr k' \<and> k' \<le> ks' ! i \<and>
      ?P ! i ! k' = ?P ! i ! (ks' ! i)"
      using i by (simp add: softmax_rnd_def)
  qed
  then have "\<forall>i<length ?P. \<exists>k. argmax_row (?P ! i) = Inr k" using lenP by auto
  then obtain ks'' where k'': "argmax_rows ?P = Inr ks''" using argmax_rows_all by blast
  have len'': "length ks'' = length ks'"
    using argmax_rows_length [OF k''] lenP len by simp
  have "\<forall>i<length ks'. ks'' ! i \<le> ks' ! i \<and> ?P ! i ! (ks'' ! i) = ?P ! i ! (ks' ! i)"
  proof (intro allI impI)
    fix i assume i: "i < length ks'"
    then have iQ: "i < length Q'" using len by simp
    then have "argmax_row (?P ! i) = Inr (ks'' ! i)"
      using argmax_rows_nth [OF k''] lenP by simp
    moreover from each iQ obtain k' where "argmax_row (?P ! i) = Inr k'"
      and "k' \<le> ks' ! i" and "?P ! i ! k' = ?P ! i ! (ks' ! i)" by blast
    ultimately show "ks'' ! i \<le> ks' ! i \<and> ?P ! i ! (ks'' ! i) = ?P ! i ! (ks' ! i)"
      by simp
  qed
  with k'' len'' show "\<exists>ks''. argmax_rows ?P = Inr ks'' \<and> length ks'' = length ks' \<and>
         (\<forall>i<length ks'. ks'' ! i \<le> ks' ! i \<and> ?P ! i ! (ks'' ! i) = ?P ! i ! (ks' ! i))"
    by blast
qed

text \<open>
  Instances: over the reals the row \<open>[1, 0]\<close> has its arg-max at class 0 before and
  after softmax; in float32 the row \<open>[0, 2 ^ (-40)]\<close> has it at class 1 before and at
  class 0 after, both classes having the same probability.
\<close>

theorem argmax_unchanged_by_softmax_witness:
  "cls_forward cls_backend (three_classifiers\<lparr>training := False\<rparr>) [()] = Inr (softmax [[1, 0]]) \<and>
   argmax_rows (softmax [[1, 0]]) = Inr [0] \<and>
   cls_forward_rnd fl32 cls_backend near_tie [()] = Inr (softmax_rnd fl32 [[0, 1 / 2 ^ 40]]) \<and>
   argmax_rows [[0, 1 / 2 ^ 40]] = Inr [1] \<and>
   argmax_rows (softmax_rnd fl32 [[0, 1 / 2 ^ 40]]) = Inr [0] \<and>
   softmax_rnd fl32 [[0, 1 / 2 ^ 40]] ! 0 ! 0 = softmax_rnd fl32 [[0, 1 / 2 ^ 40]] ! 0 ! 1"
proof -
  have h: "cls__forward cls_backend (three_classifiers\<lparr>training := False\<rparr>) [()] = Inr [[1, 0]]"
    by (rule three_classifiers__forward1)
  have k: "argmax_rows [[1, 0]] = Inr [0]" by (simp add: argmax_row_def)
  have m: "mono fl32" by (rule monoI) (rule fl32_mono)
  have z: "fl32 0 = 0" by simp
  have h': "cls__forward_rnd fl32 cls_backend near_tie [()] = Inr [[0, 1 / 2 ^ 40]]"
    by (rule near_tie__forward_fl32)
  have k': "argmax_rows [[0, 1 / 2 ^ 40]] = Inr [1]" by (simp add: argmax_row_def)
  note I = argmax_unchanged_by_softmax
    [where B = cls_backend and s = "three_classifiers\<lparr>training := False\<rparr>" and X = "[()]"
       and Q = "[[1, 0]]" and ks = "[0]" and target = "[0]" and rnd = fl32
       and B' = cls_backend and s' = near_tie and X' = "[()]" and Q' = "[[0, 1 / 2 ^ 40]]"
       and ks' = "[1]"]
  from I h have 1: "cls_forward cls_backend (three_classifiers\<lparr>training := False\<rparr>) [()]
      = Inr (softmax [[1, 0]])"
    and "argmax_rows (softmax [[1, 0]]) = argmax_rows [[1, 0]]" by blast+
  with k have 2: "argmax_rows (softmax [[1, 0]]) = Inr [0]" by simp
  from I m z h' k' have 3: "cls_forward_rnd fl32 cls_backend near_tie [()]
      = Inr (softmax_rnd fl32 [[0, 1 / 2 ^ 40]])"
    and e: "\<exists>ks''. argmax_rows (softmax_rnd fl32 [[0, 1 / 2 ^ 40]]) = Inr ks'' \<and>
      length ks'' = length [1::nat] \<and>
      (\<forall>i<length [1::nat]. ks'' ! i \<le> [1] ! i \<and>
         softmax_rnd fl32 [[0, 1 / 2 ^ 40]] ! i ! (ks'' ! i)
           = softmax_rnd fl32 [[0, 1 / 2 ^ 40]] ! i ! ([1] ! i))"
    by blast+
  have 5: "argmax_rows (softmax_rnd fl32 [[0, 1 / 2 ^ 40]]) = Inr [0]"
    unfolding near_tie_softmax_fl32 by (simp add: argmax_row_def)
  from e 5 have 6: "softmax_rnd fl32 [[0, 1 / 2 ^ 40]] ! 0 ! 0
      = softmax_rnd fl32 [[0, 1 / 2 ^ 40]] ! 0 ! 1"
    by auto
  from 1 2 3 k' 5 6 show ?thesis by (intro conjI)
qed

text \<open>
  C8 as it is written claims the same arg-max for every input of the code. In float32
  the exponentials of \<open>-2 ^ (-40)\<close> and of 0 are both rounded to 1, softmax returns
  \<open>[1/2, 1/2]\<close> for the row \<open>[0, 2 ^ (-40)]\<close>, and against the target 1 the count
  before softmax is 1 and the count after softmax is 0.
\<close>

theorem argmax_float32_counterexample:
  "cls__forward_rnd fl32 cls_backend near_tie [()] = Inr [[0, 1 / 2 ^ 40]] \<and>
   cls_forward_rnd fl32 cls_backend near_tie [()] = Inr [[1 / 2, 1 / 2]] \<and>
   argmax_rows [[0, 1 / 2 ^ 40]] = Inr [1] \<and>
   argmax_rows [[1 / 2, 1 / 2]] = Inr [0] \<and>
   eq_sum [1] [1] = Inr 1 \<and>
   eq_sum [0] [1] = Inr 0"
  by (simp add: near_tie__forward_fl32 near_tie_forward_fl32 argmax_row_def eq_sum_def)

subsection \<open>The divisors of \<open>predict\<close>\<close>

text \<open>
  C9. \<open>FusionRegressor.predict\<close> divides by the number of batches: without any batch
  the division raises, with at least one batch it is defined whenever the loop over the
  batches has run through. \<open>FusionClassifier.predict\<close> divides by the length of the
  dataset: it raises when that is 0 and is defined otherwise.
\<close>

theorem predict_divisor_precondition:
  "(batches L = [] \<longrightarrow> snd (reg_predict B s L) = Inl ZeroDivisionError) \<and>
   (batches L \<noteq> [] \<longrightarrow>
      (\<forall>mse. reg_sum_mse B (s\<lparr>training := False\<rparr>) (batches L) 0 = Inr mse \<longrightarrow>
         snd (reg_predict B s L) = Inr (mse / real (length (batches L))))) \<and>
   (dataset_len L' = 0 \<longrightarrow>
      (\<forall>c. cls_count_correct B' (s'\<lparr>training := False\<rparr>) (batches L') 0 = Inr c \<longrightarrow>
         snd (cls_predict B' s' L') = Inl ZeroDivisionError)) \<and>
   (dataset_len L' \<noteq> 0 \<longrightarrow>
      (\<forall>c. cls_count_correct B' (s'\<lparr>training := False\<rparr>) (batches L') 0 = Inr c \<longrightarrow>
         snd (cls_predict B' s' L') = Inr (100 * real c / real (dataset_len L'))))"
  by (simp add: reg_predict_def cls_predict_def)

text \<open>Instances: an empty loader for both ensembles, and a loader with batches for both.\<close>

theorem predict_divisor_precondition_witness:
  "snd (reg_predict reg_backend two_regressors empty_loader) = Inl ZeroDivisionError \<and>
   snd (cls_predict cls_backend three_classifiers empty_loader) = Inl ZeroDivisionError \<and>
   snd (reg_predict reg_backend two_regressors uneven_loader) = Inr (4 / 2) \<and>
   snd (cls_predict cls_backend three_classifiers half_right_loader) = Inr (100 * 1 / 2)"
proof -
  have e: "batches (empty_loader :: (unit, tensor) loader) = []"
    and e': "dataset_len (empty_loader :: (unit, int list) loader) = 0"
    and c: "cls_count_correct cls_backend (three_classifiers\<lparr>training := False\<rparr>)
              (batches empty_loader) 0 = Inr 0"
    by (simp_all add: empty_loader_def)
  have u: "batches uneven_loader \<noteq> []"
    and m: "reg_sum_mse reg_backend (two_regressors\<lparr>training := False\<rparr>)
              (batches uneven_loader) 0 = Inr 4"
    and l: "length (batches uneven_loader) = 2"
    by (simp_all add: uneven_loader_def two_regressors_forward1 two_regressors_forward3
        mse_35 mse_333)
  have h: "dataset_len half_right_loader \<noteq> 0"
    and k: "cls_count_correct cls_backend (three_classifiers\<lparr>training := False\<rparr>)
              (batches half_right_loader) 0 = Inr 1"
    and d: "dataset_len half_right_loader = 2"
    by (simp_all add: half_right_loader_def cls_forward_def three_classifiers__forward2
        argmax_rows_softmax argmax_row_def eq_sum_def)
  note I1 = predict_divisor_precondition
    [where L = "empty_loader :: (unit, tensor) loader" and B = reg_backend
       and s = two_regressors and L' = "empty_loader :: (unit, int list) loader"
       and B' = cls_backend and s' = three_classifiers]
  note I2 = predict_divisor_precondition
    [where L = uneven_loader and B = reg_backend and s = two_regressors
       and L' = half_right_loader and B' = cls_backend and s' = three_classifiers]
  have 1: "snd (reg_predict reg_backend two_regressors empty_loader) = Inl ZeroDivisionError"
    using I1 e by (elim conjE) simp
  have 2: "snd (cls_predict cls_backend three_classifiers empty_loader) = Inl ZeroDivisionError"
    using I1 e' c by (elim conjE) simp
  have 3: "snd (reg_predict reg_backend two_regressors uneven_loader) = Inr (4 / 2)"
    using I2 u m l by (elim conjE) simp
  have 4: "snd (cls_predict cls_backend three_classifiers half_right_loader) = Inr (100 * 1 / 2)"
    using I2 h k d by (elim conjE) simp
  from 1 2 3 4 show ?thesis by (intro conjI)
qed

subsection \<open>Frame of \<open>fit\<close> and \<open>predict\<close>\<close>

text \<open>
  C10, as amended. Every call of \<open>fit\<close> or \<open>predict\<close>, successful or failed, leaves
  \<open>n_estimators\<close> and the device unchanged. \<open>fit\<close> changes only the collection of
  estimators (with the parameters of its members), \<open>n_outputs\<close> and the train/eval
  flag, besides the ghost counter of factory invocations; \<open>predict\<close> changes only the
  train/eval flag.
\<close>

theorem fit_predict_frame:
  "n_estimators (fst (cls_fit B s L lr wd ep kind li)) = n_estimators s \<and>
   device (fst (cls_fit B s L lr wd ep kind li)) = device s \<and>
   n_estimators (fst (reg_fit B' s L' lr wd ep kind li)) = n_estimators s \<and>
   device (fst (reg_fit B' s L' lr wd ep kind li)) = device s \<and>
   (\<exists>ests no tr fc. fst (cls_fit B s L lr wd ep kind li) =
      s\<lparr>estimators := ests, n_outputs := no, training := tr, factory_calls := fc\<rparr>) \<and>
   (\<exists>ests no tr fc. fst (reg_fit B' s L' lr wd ep kind li) =
      s\<lparr>estimators := ests, n_outputs := no, training := tr, factory_calls := fc\<rparr>) \<and>
   fst (cls_predict B s T) = s\<lparr>training := False\<rparr> \<and>
   fst (reg_predict B' s T') = s\<lparr>training := False\<rparr>"
proof -
  let ?c = "fst (cls_fit B s L lr wd ep kind li)"
  let ?r = "fst (reg_fit B' s L' lr wd ep kind li)"
  have c: "n_estimators ?c = n_estimators s" "device ?c = device s"
    using cls_fit_effect [of s B L lr wd ep kind li] by (simp_all add: fit_effect_def)
  have r: "n_estimators ?r = n_estimators s" "device ?r = device s"
    using reg_fit_effect [of s B' L' lr wd ep kind li] by (simp_all add: fit_effect_def)
  have ce: "\<exists>ests no tr fc. ?c =
      s\<lparr>estimators := ests, n_outputs := no, training := tr, factory_calls := fc\<rparr>"
    using only_fit_fields [OF c] by blast
  have re: "\<exists>ests no tr fc. ?r =
      s\<lparr>estimators := ests, n_outputs := no, training := tr, factory_calls := fc\<rparr>"
    using only_fit_fields [OF r] by blast
  have p: "fst (cls_predict B s T) = s\<lparr>training := False\<rparr>"
    "fst (reg_predict B' s T') = s\<lparr>training := False\<rparr>"
    by (simp_all add: cls_predict_def reg_predict_def Let_def)
  from c r ce re p show ?thesis by (intro conjI)
qed

text \<open>An instance: the first \<open>fit\<close> of a fresh ensemble of two estimators.\<close>

theorem fit_predict_frame_witness:
  "n_estimators
     (fst (cls_fit cls_backend fresh_pair half_right_loader (1 / 1000) (5 / 10000) 1 ''Adam'' 100))
     = 2 \<and>
   device
     (fst (cls_fit cls_backend fresh_pair half_right_loader (1 / 1000) (5 / 10000) 1 ''Adam'' 100))
     = ''cpu''"
proof -
  note I = fit_predict_frame
    [where B = cls_backend and s = fresh_pair and L = half_right_loader
       and lr = "1 / 1000" and wd = "5 / 10000" and ep = 1 and kind = "''Adam''" and li = 100
       and B' = reg_backend and L' = uneven_loader
       and T = half_right_loader and T' = uneven_loader]
  have "n_estimators (fst (cls_fit cls_backend fresh_pair half_right_loader
          (1 / 1000) (5 / 10000) 1 ''Adam'' 100)) = n_estimators fresh_pair"
    using I by (rule conjunct1)
  moreover have "device (fst (cls_fit cls_backend fresh_pair half_right_loader
          (1 / 1000) (5 / 10000) 1 ''Adam'' 100)) = device fresh_pair"
    using I by (elim conjE)
  ultimately show ?thesis by (simp add: fresh_pair_def init_ensemble_def)
qed

text \<open>
  C10 as it is written lists the collection, \<open>n_outputs\<close> and the parameters as all
  that \<open>fit\<close> changes. \<open>fit\<close> also calls \<open>self.train()\<close>: on an ensemble in
  evaluation mode a successful \<open>fit\<close> leaves the flag set.
\<close>

theorem fit_sets_train_mode_counterexample:
  "training eval_pair = False \<and>
   training
     (fst (cls_fit cls_backend eval_pair half_right_loader (1 / 1000) (5 / 10000) 1 ''Adam'' 100))
     = True \<and>
   snd (snd (cls_fit cls_backend eval_pair half_right_loader (1 / 1000) (5 / 10000) 1 ''Adam'' 100))
     = None"
  by (simp add: eval_pair_def fit_eval cls__forward_def tensor_eval apply_step_def
      argmax_row_def eq_sum_def)

end
